theory Spec2Isabelle
  imports Complex_Main "HOL-Library.Word" "HOL-Library.Log_Nat"
begin

section \<open>Reader for SEA M200/M300 data files (spifpy/input/sea.py)\<close>

text \<open>
  The module reads a flat byte stream that is a sequence of buffers. A buffer is a
  directory of 16-byte entries followed by the data the entries point to. The theory
  embeds the directory entry, the time conversion, the scanner \<open>_raw_buffers\<close>, the
  decoder \<open>iter_buffers\<close> with \<open>_read_dataset\<close>, the container \<open>Buffer\<close>, and of
  the constructor of \<open>SEAFile\<close> the check of the file type and the control flow of
  \<open>_init_from_file\<close>.

  Conventions of the embedding:
  \<^item> a \<open>bytes\<close> object is a list of 8-bit words;
  \<^item> Python integers that are offsets, sizes or decoded unsigned fields are \<open>nat\<close>
    (they never go negative in the module), decoded samples are \<open>int\<close>;
  \<^item> an exception is a value of type \<open>error\<close>, returned as \<open>Inl\<close>;
  \<^item> \<open>warnings.warn\<close> appends to a list of \<open>warning\<close> values (the default warning
    configuration, in which a warning does not raise);
  \<^item> output on the terminal (\<open>print\<close>, the progress bar) is not modelled;
  \<^item> the interpreter is Python 3, which the module is written for (\<open>/\<close> is true
    division, \<open>dict.keys()\<close> is a view).
\<close>

subsection \<open>Constants\<close>

definition TIME_TAG :: nat where "TIME_TAG = 0"
definition NEXT_TAG :: nat where "NEXT_TAG = 999"
definition RESERVED_TAG_LOW_END :: nat where "RESERVED_TAG_LOW_END = 65000"
definition RESERVED_TAG_HIGH_END :: nat where "RESERVED_TAG_HIGH_END = 65529"
definition FILENAME_TAG :: nat where "FILENAME_TAG = 65530"
definition FILEDATA_TAG :: nat where "FILEDATA_TAG = 65531"
definition COMMAND_TAG :: nat where "COMMAND_TAG = 65532"
definition ERROR_TAG :: nat where "ERROR_TAG = 65533"
definition SAME_TAG :: nat where "SAME_TAG = 65534"
definition LAST_TAG :: nat where "LAST_TAG = 65535"

text \<open>\<open>DirectoryEntry.SIZE\<close>\<close>

definition SIZE :: nat where "SIZE = 16"

subsection \<open>Exceptions and warnings\<close>

text \<open>
  \<open>EndOfFile\<close> stands for the exception of a directory entry that does not fit in the
  file: \<open>UnexpectedEndOfFileException\<close>, or \<open>struct.error\<close> itself on interpreters
  whose message text differs from the one \<open>new_from_raw_data\<close> compares with. Its
  argument is the cursor.
\<close>

datatype error =
    EndOfFile nat
  | StructError
  | ValueError
  | RuntimeError
  | ZeroDivisionError
  | KeyError nat
  | InvalidSEAFile

datatype warning =
    NonexistentAttribute string
  | ReservedTag nat
  | UnknownAcquisitionType nat
  | FewerBytesThanExpected nat nat
  | DatasetBeyondBuffer nat nat
  | NotMultipleOf128Bits nat

subsection \<open>The struct module: little-endian, unpadded formats\<close>

type_synonym byte = "8 word"

text \<open>
  The format characters the module uses: \<open>b B h H I Q\<close> and \<open>Ns\<close> (a byte string of
  length N). With the prefix \<open><\<close> there is no padding, so the size of a format is the
  sum of the sizes of its characters.
\<close>

datatype fmt = Fmt_b | Fmt_B | Fmt_h | Fmt_H | Fmt_I | Fmt_Q | Fmt_s nat

datatype pyval = PInt int | PBytes "byte list"

fun calcsize1 :: "fmt \<Rightarrow> nat" where
  "calcsize1 Fmt_b = 1"
| "calcsize1 Fmt_B = 1"
| "calcsize1 Fmt_h = 2"
| "calcsize1 Fmt_H = 2"
| "calcsize1 Fmt_I = 4"
| "calcsize1 Fmt_Q = 8"
| "calcsize1 (Fmt_s n) = n"

definition calcsize :: "fmt list \<Rightarrow> nat" where
  "calcsize fs = sum_list (map calcsize1 fs)"

fun le_nat :: "byte list \<Rightarrow> nat" where
  "le_nat [] = 0"
| "le_nat (b # bs) = unat b + 256 * le_nat bs"

text \<open>Two's complement reading of an unsigned value of \<open>w\<close> bytes.\<close>

definition to_signed :: "nat \<Rightarrow> nat \<Rightarrow> int" where
  "to_signed w n = (if n < 2 ^ (8 * w - 1) then int n else int n - 2 ^ (8 * w))"

fun unpack1 :: "fmt \<Rightarrow> byte list \<Rightarrow> pyval" where
  "unpack1 Fmt_b bs = PInt (to_signed 1 (le_nat bs))"
| "unpack1 Fmt_B bs = PInt (int (le_nat bs))"
| "unpack1 Fmt_h bs = PInt (to_signed 2 (le_nat bs))"
| "unpack1 Fmt_H bs = PInt (int (le_nat bs))"
| "unpack1 Fmt_I bs = PInt (int (le_nat bs))"
| "unpack1 Fmt_Q bs = PInt (int (le_nat bs))"
| "unpack1 (Fmt_s n) bs = PBytes bs"

fun unpack_fields :: "fmt list \<Rightarrow> byte list \<Rightarrow> pyval list" where
  "unpack_fields [] bs = []"
| "unpack_fields (f # fs) bs =
     unpack1 f (take (calcsize1 f) bs) # unpack_fields fs (drop (calcsize1 f) bs)"

text \<open>
  \<open>struct.unpack_from(format, buffer, offset)\<close> for a non-negative offset: it raises
  \<open>struct.error\<close> when fewer than \<open>calcsize\<close> bytes remain after the offset.
\<close>

definition unpack_from :: "fmt list \<Rightarrow> byte list \<Rightarrow> nat \<Rightarrow> error + pyval list" where
  "unpack_from fs buffer offset =
     (if length buffer < offset + calcsize fs then Inl StructError
      else Inr (unpack_fields fs (drop offset buffer)))"

subsection \<open>DirectoryEntry\<close>

text \<open>
  The field \<open>typ\<close> of the source is \<open>typ_code\<close> here (\<open>typ\<close> is reserved in Isabelle).
\<close>

record DirectoryEntry =
  tag_number :: nat
  data_offset :: nat
  number_of_bytes :: nat
  samples :: nat
  bytes_per_sample :: nat
  typ_code :: nat
  parameter1 :: nat
  parameter2 :: nat
  parameter3 :: nat
  address :: nat

definition u16_at :: "byte list \<Rightarrow> nat \<Rightarrow> nat" where
  "u16_at bs i = unat (bs ! i) + 256 * unat (bs ! (i + 1))"

definition u8_at :: "byte list \<Rightarrow> nat \<Rightarrow> nat" where
  "u8_at bs i = unat (bs ! i)"

text \<open>
  \<open>DirectoryEntry.new_from_raw_data\<close>: the struct \<open><HHHHHBBBBH\<close> read at \<open>start\<close>.
  The reads below are in range because 16 bytes remain after \<open>start\<close>.
\<close>

definition new_from_raw_data :: "byte list \<Rightarrow> nat \<Rightarrow> error + DirectoryEntry" where
  "new_from_raw_data file_contents start =
     (if length file_contents < start + 16 then Inl (EndOfFile start)
      else let bs = drop start file_contents in
        Inr \<lparr> tag_number = u16_at bs 0, data_offset = u16_at bs 2,
              number_of_bytes = u16_at bs 4, samples = u16_at bs 6,
              bytes_per_sample = u16_at bs 8, typ_code = u8_at bs 10,
              parameter1 = u8_at bs 11, parameter2 = u8_at bs 12,
              parameter3 = u8_at bs 13, address = u16_at bs 14 \<rparr>)"

subsection \<open>Floating-point division of two integers\<close>

text \<open>
  Python 3 evaluates \<open>a / b\<close> on integers as the exact quotient rounded once to the
  nearest IEEE-754 binary64 value, ties to even. \<open>round_binary64\<close> is that rounding
  on a rational, for zero and for positive values in the normal range (every quotient
  the module forms is one: numerator and denominator are below \<open>2 ^ 37\<close>).
  \<open>binade x\<close> is the exponent \<open>e\<close> with \<open>2 ^ e \<le> x < 2 ^ (e + 1)\<close>; a binary64
  value in that binade is a multiple of \<open>2 ^ (e - 52)\<close>.
\<close>

definition round_half_even :: "rat \<Rightarrow> int" where
  "round_half_even y =
     (let f = \<lfloor>y\<rfloor>; r = y - of_int f in
      if r < 1 / 2 then f
      else if 1 / 2 < r then f + 1
      else if even f then f else f + 1)"

definition pow2 :: "int \<Rightarrow> rat" where
  "pow2 e = (if 0 \<le> e then 2 ^ nat e else 1 / 2 ^ nat (- e))"

definition binade :: "rat \<Rightarrow> int" where
  "binade x = (if 1 \<le> x then bitlen \<lfloor>x\<rfloor> - 1 else - bitlen (\<lceil>1 / x\<rceil> - 1))"

definition round_binary64 :: "rat \<Rightarrow> rat" where
  "round_binary64 x =
     (if x = 0 then 0
      else let u = pow2 (binade x - 52) in of_int (round_half_even (x / u)) * u)"

definition py_truediv :: "nat \<Rightarrow> nat \<Rightarrow> rat" where
  "py_truediv a b = round_binary64 (of_nat a / of_nat b)"

text \<open>\<open>int(x)\<close> and \<open>math.ceil(x)\<close> on a non-negative float\<close>

definition py_int :: "rat \<Rightarrow> nat" where
  "py_int x = nat \<lfloor>x\<rfloor>"

definition py_ceil :: "rat \<Rightarrow> nat" where
  "py_ceil x = nat \<lceil>x\<rceil>"

subsection \<open>Time\<close>

record SEATime =
  year :: nat
  month :: nat
  day :: nat
  hour :: nat
  minute :: nat
  second :: nat
  fraction_of_second :: nat
  max_sys_freq :: nat
  buffer_life_span :: nat

text \<open>A \<open>datetime.datetime\<close> without time zone.\<close>

record datetime =
  dt_year :: nat
  dt_month :: nat
  dt_day :: nat
  dt_hour :: nat
  dt_minute :: nat
  dt_second :: nat
  dt_microsecond :: nat

definition is_leap :: "nat \<Rightarrow> bool" where
  "is_leap y = (y mod 4 = 0 \<and> (if y mod 100 = 0 then y mod 400 = 0 else True))"

definition days_in_month :: "nat \<Rightarrow> nat \<Rightarrow> nat" where
  "days_in_month y m =
     (if m = 2 then (if is_leap y then 29 else 28)
      else if m = 4 \<or> m = 6 \<or> m = 9 \<or> m = 11 then 30 else 31)"

text \<open>
  The constructor \<open>datetime.datetime(year, month, day, hour, minute, second,
  microsecond)\<close> on non-negative integers: \<open>ValueError\<close> outside the calendar.
\<close>

definition datetime_valid :: "nat \<Rightarrow> nat \<Rightarrow> nat \<Rightarrow> nat \<Rightarrow> nat \<Rightarrow> nat \<Rightarrow> nat \<Rightarrow> bool" where
  "datetime_valid y mo d h mi s us =
     (1 \<le> y \<and> y \<le> 9999 \<and> 1 \<le> mo \<and> mo \<le> 12 \<and> 1 \<le> d \<and> d \<le> days_in_month y mo
      \<and> h \<le> 23 \<and> mi \<le> 59 \<and> s \<le> 59 \<and> us \<le> 999999)"

definition datetime_new ::
  "nat \<Rightarrow> nat \<Rightarrow> nat \<Rightarrow> nat \<Rightarrow> nat \<Rightarrow> nat \<Rightarrow> nat \<Rightarrow> error + datetime" where
  "datetime_new y mo d h mi s us =
     (if datetime_valid y mo d h mi s us
      then Inr \<lparr> dt_year = y, dt_month = mo, dt_day = d, dt_hour = h, dt_minute = mi,
                 dt_second = s, dt_microsecond = us \<rparr>
      else Inl ValueError)"

text \<open>
  \<open>datetime_from_seatime\<close>:
  \<open>microsecond = int(1000000 * fraction_of_second / max_sys_freq)\<close>, a float
  division (\<open>ZeroDivisionError\<close> for a zero frequency) truncated by \<open>int\<close>; then the
  constructor, whose \<open>ValueError\<close> is raised again.
\<close>

definition datetime_from_seatime :: "SEATime \<Rightarrow> error + datetime" where
  "datetime_from_seatime seatime =
     (if max_sys_freq seatime = 0 then Inl ZeroDivisionError
      else let microsecond =
                 py_int (py_truediv (1000000 * fraction_of_second seatime)
                                    (max_sys_freq seatime))
           in datetime_new (year seatime) (month seatime) (day seatime) (hour seatime)
                (minute seatime) (second seatime) microsecond)"

text \<open>\<open>SEA_TIME_STRUCT\<close>, nine \<open>H\<close> fields, read from 18 bytes\<close>

definition SEATime_unpack :: "byte list \<Rightarrow> SEATime" where
  "SEATime_unpack bs =
     \<lparr> year = u16_at bs 0, month = u16_at bs 2, day = u16_at bs 4, hour = u16_at bs 6,
       minute = u16_at bs 8, second = u16_at bs 10, fraction_of_second = u16_at bs 12,
       max_sys_freq = u16_at bs 14, buffer_life_span = u16_at bs 16 \<rparr>"

definition datetime_from_raw_seatime :: "byte list \<Rightarrow> nat \<Rightarrow> error + datetime" where
  "datetime_from_raw_seatime sea_file_data offset =
     (if length sea_file_data < offset + 18 then Inl StructError
      else datetime_from_seatime (SEATime_unpack (drop offset sea_file_data)))"

subsection \<open>Buffer\<close>

text \<open>A dataset is the tuple that \<open>struct.unpack_from\<close> returns.\<close>

type_synonym dataset = "pyval list"

record Buffer =
  dir_entries_by_tag_number :: "nat \<rightharpoonup> DirectoryEntry"
  dir_entries_by_typ :: "nat \<rightharpoonup> DirectoryEntry list"
  datasets_by_tag_number :: "nat \<rightharpoonup> dataset"
  datasets_by_typ :: "nat \<rightharpoonup> dataset list"
  buffer_type :: "nat option"

definition Buffer_init :: Buffer where
  "Buffer_init =
     \<lparr> dir_entries_by_tag_number = Map.empty, dir_entries_by_typ = Map.empty,
       datasets_by_tag_number = Map.empty, datasets_by_typ = Map.empty,
       buffer_type = None \<rparr>"

text \<open>
  \<open>d[k].append(x)\<close>, and \<open>d[k] = [x]\<close> when the lookup raises \<open>KeyError\<close> (the
  handler's other branch re-raises a \<open>KeyError\<close> of another key, which the lookup of
  \<open>k\<close> cannot raise).
\<close>

definition append_at :: "('k \<rightharpoonup> 'v list) \<Rightarrow> 'k \<Rightarrow> 'v \<Rightarrow> ('k \<rightharpoonup> 'v list)" where
  "append_at m k x = (case m k of Some xs \<Rightarrow> m(k \<mapsto> xs @ [x]) | None \<Rightarrow> m(k \<mapsto> [x]))"

definition add_dataset :: "Buffer \<Rightarrow> DirectoryEntry \<Rightarrow> dataset \<Rightarrow> Buffer" where
  "add_dataset self dir_entry dataset =
     (let b = self
          \<lparr> dir_entries_by_tag_number :=
              (dir_entries_by_tag_number self)(tag_number dir_entry \<mapsto> dir_entry),
            datasets_by_tag_number :=
              (datasets_by_tag_number self)(tag_number dir_entry \<mapsto> dataset) \<rparr>
      in if tag_number dir_entry \<noteq> TIME_TAG
         then b \<lparr> dir_entries_by_typ :=
                    append_at (dir_entries_by_typ b) (typ_code dir_entry) dir_entry,
                  datasets_by_typ :=
                    append_at (datasets_by_typ b) (typ_code dir_entry) dataset \<rparr>
         else b)"

definition lookup_or_KeyError :: "(nat \<rightharpoonup> 'v) \<Rightarrow> nat \<Rightarrow> error + 'v" where
  "lookup_or_KeyError m k = (case m k of None \<Rightarrow> Inl (KeyError k) | Some v \<Rightarrow> Inr v)"

definition get_dir_entry_by_tag_number :: "Buffer \<Rightarrow> nat \<Rightarrow> error + DirectoryEntry" where
  "get_dir_entry_by_tag_number self n = lookup_or_KeyError (dir_entries_by_tag_number self) n"

definition get_dir_entries_by_typ :: "Buffer \<Rightarrow> nat \<Rightarrow> error + DirectoryEntry list" where
  "get_dir_entries_by_typ self t = lookup_or_KeyError (dir_entries_by_typ self) t"

definition get_dataset_by_tag_number :: "Buffer \<Rightarrow> nat \<Rightarrow> error + dataset" where
  "get_dataset_by_tag_number self n = lookup_or_KeyError (datasets_by_tag_number self) n"

definition get_datasets_by_typ :: "Buffer \<Rightarrow> nat \<Rightarrow> error + dataset list" where
  "get_datasets_by_typ self t = lookup_or_KeyError (datasets_by_typ self) t"

subsection \<open>Decoding one dataset: \<open>_read_dataset\<close>\<close>

text \<open>
  The format of one sample for an acquisition type, with the warning the branch of
  type 66 may issue; \<open>None\<close> is the last branch (unknown type). For type 66 the
  source computes \<open>num_slices = bytes_per_sample / 16\<close>, a float, so \<open>'QQ' *
  num_slices\<close> raises \<open>TypeError\<close> and the handler takes \<open>math.ceil(num_slices)\<close>.
\<close>

definition sample_string :: "DirectoryEntry \<Rightarrow> (fmt list \<times> warning list) option" where
  "sample_string dir_entry =
     (let t = typ_code dir_entry; bps = bytes_per_sample dir_entry in
      if t = 1 then Some ([Fmt_h], [])
      else if t = 2 then Some (replicate 20 Fmt_H @ [Fmt_b, Fmt_b], [])
      else if t = 5 then Some (replicate 1024 Fmt_I, [])
      else if t = 6 then Some ([Fmt_H, Fmt_H], [])
      else if t = 7 then Some ([Fmt_I], [])
      else if t = 8 then Some ([Fmt_I], [])
      else if t = 9 then Some ([Fmt_H], [])
      else if t = 10 then Some ([Fmt_H], [])
      else if t = 11 then Some (replicate 8 Fmt_H, [])
      else if t = 35 then Some ([Fmt_h], [])
      else if t = 66 then
        Some (concat (replicate (py_ceil (py_truediv bps 16)) [Fmt_Q, Fmt_Q]),
              if bps mod 16 \<noteq> 0 then [NotMultipleOf128Bits bps] else [])
      else if t = 78 then Some (replicate 4096 Fmt_B @ [Fmt_H], [])
      else if t = 85 then Some (replicate bps Fmt_B, [])
      else if t = 255 then Some (replicate bps Fmt_B, [])
      else None)"

definition read_dataset_raw :: "DirectoryEntry \<Rightarrow> byte list \<Rightarrow> fmt list \<Rightarrow> error + dataset" where
  "read_dataset_raw dir_entry raw_buffer dataset_string =
     unpack_from dataset_string raw_buffer (data_offset dir_entry)"

text \<open>
  \<open>_read_dataset\<close> returns the warnings it issued and the dataset or the exception.
  The bounds check is the \<open>elif\<close> of the size check: it runs only when
  \<open>number_of_bytes\<close> is not smaller than the expected size.
\<close>

definition read_dataset :: "DirectoryEntry \<Rightarrow> byte list \<Rightarrow> warning list \<times> (error + dataset)" where
  "read_dataset dir_entry raw_buffer =
     (case sample_string dir_entry of
        None \<Rightarrow>
          ([UnknownAcquisitionType (typ_code dir_entry)],
           read_dataset_raw dir_entry raw_buffer
             (replicate (number_of_bytes dir_entry) Fmt_B))
      | Some (sample, ws) \<Rightarrow>
          let expected_size = samples dir_entry * bytes_per_sample dir_entry in
          if number_of_bytes dir_entry < expected_size then
            (ws @ [FewerBytesThanExpected (number_of_bytes dir_entry) expected_size],
             read_dataset_raw dir_entry raw_buffer
               (concat (replicate (samples dir_entry) sample)))
          else if length raw_buffer < data_offset dir_entry + expected_size then
            (ws @ [DatasetBeyondBuffer (data_offset dir_entry + expected_size)
                     (length raw_buffer)],
             Inl ValueError)
          else
            (ws, read_dataset_raw dir_entry raw_buffer
                   (concat (replicate (samples dir_entry) sample))))"

text \<open>
  \<open>_unpack_string_data\<close>: the format is \<open>'<Ns' * samples\<close>. For two samples or more
  the byte-order character appears inside the format, which \<open>struct\<close> rejects; for no
  sample the format is empty.
\<close>

definition unpack_string_data :: "byte list \<Rightarrow> DirectoryEntry \<Rightarrow> error + dataset" where
  "unpack_string_data raw_buffer dir_entry =
     (if 2 \<le> samples dir_entry then Inl StructError
      else unpack_from (replicate (samples dir_entry) (Fmt_s (bytes_per_sample dir_entry)))
             raw_buffer (data_offset dir_entry))"

subsection \<open>Filters\<close>

text \<open>
  A filter is a dict from attribute names to lists of accepted values, kept here as
  an association list in insertion order (its keys are distinct). \<open>getattr_entry\<close>
  is \<open>getattr\<close> on a directory entry for the attributes whose value is an integer;
  the other attributes (\<open>struct\<close>, methods) never equal an accepted integer.
\<close>

type_synonym filters = "(string \<times> nat list) list"

definition getattr_entry :: "DirectoryEntry \<Rightarrow> string \<Rightarrow> nat option" where
  "getattr_entry e a =
     (if a = ''tag_number'' then Some (tag_number e)
      else if a = ''data_offset'' then Some (data_offset e)
      else if a = ''number_of_bytes'' then Some (number_of_bytes e)
      else if a = ''samples'' then Some (samples e)
      else if a = ''bytes_per_sample'' then Some (bytes_per_sample e)
      else if a = ''typ'' then Some (typ_code e)
      else if a = ''parameter1'' then Some (parameter1 e)
      else if a = ''parameter2'' then Some (parameter2 e)
      else if a = ''parameter3'' then Some (parameter3 e)
      else if a = ''address'' then Some (address e)
      else if a = ''SIZE'' then Some SIZE
      else None)"

text \<open>
  \<open>hasattr\<close> on an instance of \<open>DirectoryEntry\<close>: its ten fields, the attributes of
  the class, and the attributes every object inherits, as of Python 3.11 and 3.12
  (\<open>__getstate__\<close> is absent before 3.11).
\<close>

definition object_attributes :: "string list" where
  "object_attributes =
     [''__class__'', ''__delattr__'', ''__dict__'', ''__dir__'', ''__doc__'', ''__eq__'',
      ''__format__'', ''__ge__'', ''__getattribute__'', ''__getstate__'', ''__gt__'',
      ''__hash__'', ''__init__'', ''__init_subclass__'', ''__le__'', ''__lt__'',
      ''__module__'', ''__ne__'', ''__new__'', ''__reduce__'', ''__reduce_ex__'',
      ''__repr__'', ''__setattr__'', ''__sizeof__'', ''__str__'', ''__subclasshook__'',
      ''__weakref__'']"

definition hasattr_entry :: "string \<Rightarrow> bool" where
  "hasattr_entry a =
     (a \<in> set [''tag_number'', ''data_offset'', ''number_of_bytes'', ''samples'',
               ''bytes_per_sample'', ''typ'', ''parameter1'', ''parameter2'',
               ''parameter3'', ''address'', ''struct'', ''SIZE'', ''new_from_raw_data'']
      \<or> a \<in> set object_attributes)"

text \<open>
  The loop that removes invalid criteria iterates over \<open>filters.keys()\<close> and deletes
  from \<open>filters\<close> inside the loop. A key view's iterator remembers the size of the
  dict when it was created and raises \<open>RuntimeError\<close> (dictionary changed size during
  iteration) on the next step if the size differs, also when no key is left.
  \<open>used\<close> is the remembered size, \<open>ks\<close> the keys not yet visited.
\<close>

fun remove_invalid_loop ::
  "nat \<Rightarrow> string list \<Rightarrow> filters \<Rightarrow> warning list \<Rightarrow> warning list \<times> (error + filters)" where
  "remove_invalid_loop used [] fs ws =
     (if length fs \<noteq> used then (ws, Inl RuntimeError) else (ws, Inr fs))"
| "remove_invalid_loop used (attr_name # ks) fs ws =
     (if length fs \<noteq> used then (ws, Inl RuntimeError)
      else if \<not> hasattr_entry attr_name then
        remove_invalid_loop used ks (filter (\<lambda>(a, vs). a \<noteq> attr_name) fs)
          (ws @ [NonexistentAttribute attr_name])
      else remove_invalid_loop used ks fs ws)"

definition remove_invalid :: "filters \<Rightarrow> warning list \<times> (error + filters)" where
  "remove_invalid fs = remove_invalid_loop (length fs) (map fst fs) fs []"

text \<open>
  \<open>for attr in filters.keys(): if getattr(dir_entry, attr) in filters[attr]\<close>: true
  when some criterion accepts the entry.
\<close>

fun matches :: "filters \<Rightarrow> DirectoryEntry \<Rightarrow> bool" where
  "matches [] e = False"
| "matches ((a, vs) # fs) e =
     (case getattr_entry e a of
        Some v \<Rightarrow> (if v \<in> set vs then True else matches fs e)
      | None \<Rightarrow> matches fs e)"

subsection \<open>The scanner: \<open>_raw_buffers\<close>\<close>

text \<open>
  The local variables of the generator that live across iterations of its loop. The
  progress bar and \<open>prev_cursor\<close>, which only feeds it, are left out.
\<close>

record scan_state =
  cursor :: nat
  search_time :: nat
  dir_base :: nat
  dir_entries :: "DirectoryEntry list"
  drop_buffer :: bool
  reached_end :: bool
  first_tag :: bool

text \<open>What the generator yields: the directory entries and the bytes of a buffer.\<close>

type_synonym raw_buffer = "DirectoryEntry list \<times> byte list"

definition initial_state :: "filters \<Rightarrow> scan_state" where
  "initial_state fs =
     \<lparr> cursor = 0, search_time = 0, dir_base = 0, dir_entries = [],
       drop_buffer = (fs \<noteq> []), reached_end = False, first_tag = True \<rparr>"

text \<open>The test on the first entry of a buffer (lines 442 to 445).\<close>

definition time_signature :: "DirectoryEntry \<Rightarrow> bool" where
  "time_signature e =
     (tag_number e = TIME_TAG \<and> number_of_bytes e = 36 \<and> samples e = 2
      \<and> bytes_per_sample e = 18)"

text \<open>The slice \<open>xs[a:b]\<close> for non-negative bounds.\<close>

definition bytes_slice :: "'a list \<Rightarrow> nat \<Rightarrow> nat \<Rightarrow> 'a list" where
  "bytes_slice xs a b = take (b - a) (drop a xs)"

text \<open>
  The chain of branches on the tag number (lines 458 to 491), with the buffers it
  yields. The state passed in already holds the entry in \<open>dir_entries\<close>.
\<close>

definition on_tag ::
  "byte list \<Rightarrow> filters \<Rightarrow> DirectoryEntry \<Rightarrow> scan_state \<Rightarrow> raw_buffer list \<times> scan_state" where
  "on_tag contents fs e s =
     (if tag_number e = TIME_TAG then ([], s)
      else if tag_number e = NEXT_TAG then
        (let c = dir_base s + data_offset e in
         ((if \<not> drop_buffer s
           then [(dir_entries s, bytes_slice contents (dir_base s) c)] else []),
          s \<lparr> cursor := c, dir_base := c, dir_entries := [], first_tag := True,
              drop_buffer := (fs \<noteq> []) \<rparr>))
      else if RESERVED_TAG_LOW_END \<le> tag_number e \<and> tag_number e \<le> RESERVED_TAG_HIGH_END
        then ([], s)
      else if tag_number e = FILENAME_TAG then ([], s)
      else if tag_number e = FILEDATA_TAG then ([], s)
      else if tag_number e = LAST_TAG then
        ([(dir_entries s, drop (dir_base s) contents)], s \<lparr> reached_end := True \<rparr>)
      else ([], s))"

text \<open>The branch for an entry read while \<open>first_tag\<close> is set (lines 441 to 451).\<close>

definition on_first_tag :: "DirectoryEntry \<Rightarrow> scan_state \<Rightarrow> scan_state" where
  "on_first_tag e s =
     (if time_signature e then s \<lparr> first_tag := False \<rparr>
      else s \<lparr> search_time := search_time s + 1, cursor := cursor s + 1,
               dir_base := cursor s + 1, dir_entries := [] \<rparr>)"

text \<open>The branch for any other entry (lines 453 to 509).\<close>

definition on_entry ::
  "byte list \<Rightarrow> filters \<Rightarrow> DirectoryEntry \<Rightarrow> scan_state \<Rightarrow> raw_buffer list \<times> scan_state" where
  "on_entry contents fs e s =
     (let (out, s1) = on_tag contents fs e s;
          s2 = (if fs \<noteq> [] \<and> matches fs e then s1 \<lparr> drop_buffer := False \<rparr> else s1);
          s3 = (if tag_number e \<noteq> NEXT_TAG then s2 \<lparr> cursor := cursor s2 + SIZE \<rparr> else s2)
      in (out, s3))"

text \<open>The test that ends the loop near the end of the file (lines 511 to 513).\<close>

definition end_guard ::
  "byte list \<Rightarrow> raw_buffer list \<times> scan_state \<Rightarrow> raw_buffer list \<times> scan_state" where
  "end_guard contents r =
     (let (out, s) = r in
      if int (length contents) - int SIZE \<le> int (cursor s)
      then (out @ [(dir_entries s, drop (dir_base s) contents)], s \<lparr> reached_end := True \<rparr>)
      else (out, s))"

text \<open>One iteration of the \<open>while\<close> loop: the buffers it yields and the next state.\<close>

definition scan_step ::
  "byte list \<Rightarrow> filters \<Rightarrow> scan_state \<Rightarrow> error + (raw_buffer list \<times> scan_state)" where
  "scan_step contents fs s =
     (case new_from_raw_data contents (cursor s) of
        Inl err \<Rightarrow> Inl err
      | Inr e \<Rightarrow>
          (let s1 = s \<lparr> dir_entries := dir_entries s @ [e] \<rparr> in
           Inr (end_guard contents
                  (if first_tag s1 then ([], on_first_tag e s1)
                   else on_entry contents fs e s1))))"

text \<open>
  How a generator ends: exhausted, with an exception, or not within the given number
  of loop iterations.
\<close>

datatype status = Exhausted | Raised error | OutOfFuel

fun raw_buffers_loop ::
  "nat \<Rightarrow> byte list \<Rightarrow> filters \<Rightarrow> scan_state \<Rightarrow> raw_buffer list \<times> status" where
  "raw_buffers_loop 0 contents fs s =
     (if reached_end s then ([], Exhausted) else ([], OutOfFuel))"
| "raw_buffers_loop (Suc fuel) contents fs s =
     (if reached_end s then ([], Exhausted)
      else case scan_step contents fs s of
             Inl err \<Rightarrow> ([], Raised err)
           | Inr (out, s') \<Rightarrow>
               (let (bs, st) = raw_buffers_loop fuel contents fs s' in (out @ bs, st)))"

text \<open>
  \<open>_raw_buffers\<close> run to its end with at most \<open>fuel\<close> iterations of the loop: the
  warnings, the buffers yielded in order, and how the generator ended.
\<close>

definition raw_buffers ::
  "nat \<Rightarrow> byte list \<Rightarrow> filters \<Rightarrow> warning list \<times> raw_buffer list \<times> status" where
  "raw_buffers fuel contents filters =
     (case remove_invalid filters of
        (ws, Inl err) \<Rightarrow> (ws, [], Raised err)
      | (ws, Inr fs) \<Rightarrow>
          (let (bs, st) = raw_buffers_loop fuel contents fs (initial_state fs)
           in (ws, bs, st)))"

subsection \<open>The decoder: \<open>iter_buffers\<close>\<close>

text \<open>
  How the loop over the entries of one raw buffer ends: \<open>Yield\<close> (the buffer is
  yielded at its NEXT entry), \<open>Skip\<close> (the loop ends or breaks without a yield),
  \<open>Return\<close> (a LAST entry ends the generator) or \<open>Fail\<close> (an exception).
\<close>

datatype action = Yield | Skip | Return | Fail error

text \<open>
  The branch of an ordinary entry under a non-empty filter (lines 692 to 697): for
  each criterion that accepts the entry, the dataset is read and added and
  \<open>discard_buffer\<close> is cleared; the loop has no \<open>break\<close>.
\<close>

fun read_matching ::
  "filters \<Rightarrow> DirectoryEntry \<Rightarrow> byte list \<Rightarrow> Buffer \<Rightarrow> bool \<Rightarrow> warning list
     \<Rightarrow> warning list \<times> (error + Buffer \<times> bool)" where
  "read_matching [] e raw b discard ws = (ws, Inr (b, discard))"
| "read_matching ((a, vs) # fs) e raw b discard ws =
     (if (case getattr_entry e a of Some v \<Rightarrow> v \<in> set vs | None \<Rightarrow> False) then
        (case read_dataset e raw of
           (ws', Inl err) \<Rightarrow> (ws @ ws', Inl err)
         | (ws', Inr d) \<Rightarrow> read_matching fs e raw (add_dataset b e d) False (ws @ ws'))
      else read_matching fs e raw b discard ws)"

text \<open>
  The loop over the entries of one raw buffer (lines 619 to 701). \<open>secondary\<close> is
  \<open>self._secondary_tags\<close>; \<open>b\<close> is \<open>new_buffer\<close>.
\<close>

fun decode_entries ::
  "filters \<Rightarrow> nat list \<Rightarrow> byte list \<Rightarrow> DirectoryEntry list \<Rightarrow> Buffer \<Rightarrow> bool
     \<Rightarrow> warning list \<Rightarrow> action \<times> Buffer \<times> warning list" where
  "decode_entries fs secondary raw [] b discard ws = (Skip, b, ws)"
| "decode_entries fs secondary raw (e # es) b discard ws =
     (if tag_number e = TIME_TAG then
        (case unpack_from (replicate 9 Fmt_H) raw (data_offset e) of
           Inl err \<Rightarrow> (Fail err, b, ws)
         | Inr d \<Rightarrow> decode_entries fs secondary raw es (add_dataset b e d) discard ws)
      else if tag_number e = NEXT_TAG then
        (if \<not> discard then (Yield, b, ws) else (Skip, b, ws))
      else if RESERVED_TAG_LOW_END \<le> tag_number e \<and> tag_number e \<le> RESERVED_TAG_HIGH_END
        then decode_entries fs secondary raw es b discard (ws @ [ReservedTag (tag_number e)])
      else if tag_number e = FILENAME_TAG \<or> tag_number e = FILEDATA_TAG then
        (case unpack_string_data raw e of
           Inl err \<Rightarrow> (Fail err, b, ws)
         | Inr d \<Rightarrow> decode_entries fs secondary raw es (add_dataset b e d) discard ws)
      else if tag_number e = COMMAND_TAG \<or> tag_number e = ERROR_TAG
              \<or> tag_number e = SAME_TAG then
        decode_entries fs secondary raw es b True ws
      else if tag_number e = LAST_TAG then (Return, b, ws)
      else if tag_number e \<in> set secondary then
        decode_entries fs secondary raw es b True ws
      else if fs \<noteq> [] then
        (case read_matching fs e raw b discard ws of
           (ws', Inl err) \<Rightarrow> (Fail err, b, ws')
         | (ws', Inr (b', discard')) \<Rightarrow> decode_entries fs secondary raw es b' discard' ws')
      else
        (case read_dataset e raw of
           (ws', Inl err) \<Rightarrow> (Fail err, b, ws @ ws')
         | (ws', Inr d) \<Rightarrow>
             decode_entries fs secondary raw es (add_dataset b e d) discard (ws @ ws')))"

text \<open>The body of the outer loop for one raw buffer, from a fresh \<open>Buffer\<close>.\<close>

definition decode_buffer ::
  "filters \<Rightarrow> nat list \<Rightarrow> raw_buffer \<Rightarrow> action \<times> Buffer \<times> warning list" where
  "decode_buffer fs secondary rb =
     decode_entries fs secondary (snd rb) (fst rb) Buffer_init (fs \<noteq> []) []"

text \<open>The outer loop over the raw buffers the scanner yields.\<close>

fun iter_raw ::
  "filters \<Rightarrow> nat list \<Rightarrow> raw_buffer list \<Rightarrow> status \<Rightarrow> Buffer list \<times> status \<times> warning list" where
  "iter_raw fs secondary [] st = ([], st, [])"
| "iter_raw fs secondary (rb # rest) st =
     (case decode_buffer fs secondary rb of
        (Yield, b, ws) \<Rightarrow>
          (let (bs, st', ws') = iter_raw fs secondary rest st in (b # bs, st', ws @ ws'))
      | (Skip, b, ws) \<Rightarrow>
          (let (bs, st', ws') = iter_raw fs secondary rest st in (bs, st', ws @ ws'))
      | (Return, b, ws) \<Rightarrow> ([], Exhausted, ws)
      | (Fail err, b, ws) \<Rightarrow> ([], Raised err, ws))"

text \<open>
  \<open>iter_buffers\<close> run to its end: the buffers yielded in order, how the generator
  ended, and the warnings.
\<close>

definition iter_buffers ::
  "nat \<Rightarrow> byte list \<Rightarrow> nat list \<Rightarrow> filters \<Rightarrow> Buffer list \<times> status \<times> warning list" where
  "iter_buffers fuel contents secondary filters =
     (case remove_invalid filters of
        (ws, Inl err) \<Rightarrow> ([], Raised err, ws)
      | (ws, Inr fs) \<Rightarrow>
          (let (rbs, st) = raw_buffers_loop fuel contents fs (initial_state fs);
               (bs, st', ws') = iter_raw fs secondary rbs st
           in (bs, st', ws @ ws')))"

subsection \<open>The constructor: \<open>_filetype_check\<close> and \<open>_init_from_file\<close>\<close>

text \<open>
  \<open>_filetype_check\<close> (lines 192 to 201): the first directory entry of the file must
  be a time entry with 18 bytes per sample and the address \<open>0xAA55\<close>. A file shorter
  than one entry raises as well (see \<open>EndOfFile\<close>).
\<close>

definition filetype_check :: "byte list \<Rightarrow> error + unit" where
  "filetype_check contents =
     (case new_from_raw_data contents 0 of
        Inl err \<Rightarrow> Inl err
      | Inr dir_entry \<Rightarrow>
          (if tag_number dir_entry \<noteq> TIME_TAG \<or> bytes_per_sample dir_entry \<noteq> 18
              \<or> address dir_entry \<noteq> 43605
           then Inl InvalidSEAFile else Inr ()))"

text \<open>
  \<open>_init_from_file\<close> scans the file with the filter
  \<open>{'tag_number': [FILEDATA_TAG]}\<close> and reads, from the raw buffers it receives, the
  time of the file (the first time entry it meets) and the configuration files. The
  embedding covers the time and the control flow. Reading a configuration file starts
  at a FILENAME entry and needs string decoding, the parsers of the acquisition tables
  and the module \<open>tag\<close>, which is not part of this source file: the model ends with
  \<open>Unmodelled\<close> at a FILENAME entry. In a run without FILENAME entry \<open>has_filename\<close>
  is false throughout, and a FILEDATA entry only prints a message.

  The results: initialised with \<open>self._datetime\<close>, an exception, a FILENAME entry
  was met, or the scanner did not end within the given number of loop iterations.
\<close>

datatype init_result =
    Initialized "datetime option"
  | InitRaised error
  | Unmodelled
  | InitOutOfFuel

text \<open>
  The loop over the entries of one raw buffer (lines 302 to 385); \<open>dt\<close> is
  \<open>self._datetime\<close>, and \<open>Initialized\<close> here means that the loop has ended or met
  a \<open>break\<close>.
\<close>

fun init_entries :: "byte list \<Rightarrow> DirectoryEntry list \<Rightarrow> datetime option \<Rightarrow> init_result" where
  "init_entries raw [] dt = Initialized dt"
| "init_entries raw (e # es) dt =
     (if tag_number e = TIME_TAG then
        (case dt of
           None \<Rightarrow>
             (case datetime_from_raw_seatime raw (data_offset e) of
                Inl err \<Rightarrow> InitRaised err
              | Inr d \<Rightarrow> init_entries raw es (Some d))
         | Some d \<Rightarrow> init_entries raw es dt)
      else if tag_number e = NEXT_TAG then Initialized dt
      else if RESERVED_TAG_LOW_END \<le> tag_number e \<and> tag_number e \<le> RESERVED_TAG_HIGH_END
        then init_entries raw es dt
      else if tag_number e = FILENAME_TAG then Unmodelled
      else if tag_number e = FILEDATA_TAG then init_entries raw es dt
      else if tag_number e = LAST_TAG then Initialized dt
      else init_entries raw es dt)"

text \<open>
  The outer loop over the raw buffers that the scanner yields (lines 299 and 300). An
  exception of the scanner arrives after the buffers yielded before it.
\<close>

fun init_buffers :: "raw_buffer list \<Rightarrow> status \<Rightarrow> datetime option \<Rightarrow> init_result" where
  "init_buffers [] st dt =
     (case st of
        Exhausted \<Rightarrow> Initialized dt
      | Raised err \<Rightarrow> InitRaised err
      | OutOfFuel \<Rightarrow> InitOutOfFuel)"
| "init_buffers (rb # rest) st dt =
     (case init_entries (snd rb) (fst rb) dt of
        Initialized dt' \<Rightarrow> init_buffers rest st dt'
      | InitRaised err \<Rightarrow> InitRaised err
      | Unmodelled \<Rightarrow> Unmodelled
      | InitOutOfFuel \<Rightarrow> InitOutOfFuel)"

definition init_from_file :: "nat \<Rightarrow> byte list \<Rightarrow> init_result" where
  "init_from_file fuel contents =
     (case raw_buffers fuel contents [(''tag_number'', [FILEDATA_TAG])] of
        (ws, rbs, st) \<Rightarrow> init_buffers rbs st None)"

text \<open>\<open>SEAFile.__init__\<close> on a file with the given contents (lines 171 to 181).\<close>

definition SEAFile_init :: "nat \<Rightarrow> byte list \<Rightarrow> init_result" where
  "SEAFile_init fuel contents =
     (case filetype_check contents of
        Inl err \<Rightarrow> InitRaised err
      | Inr u \<Rightarrow> init_from_file fuel contents)"

subsection \<open>A sequence of calls of \<open>add_dataset\<close>\<close>

text \<open>
  The buffer after the calls \<open>add_dataset(e, d)\<close> for the pairs of a list, in order,
  and the entries and datasets of those calls that are not time entries and have a
  given type.
\<close>

definition add_datasets :: "Buffer \<Rightarrow> (DirectoryEntry \<times> dataset) list \<Rightarrow> Buffer" where
  "add_datasets b calls = foldl (\<lambda>b (e, d). add_dataset b e d) b calls"

definition calls_of_typ ::
  "nat \<Rightarrow> (DirectoryEntry \<times> dataset) list \<Rightarrow> (DirectoryEntry \<times> dataset) list" where
  "calls_of_typ t calls =
     filter (\<lambda>(e, d). tag_number e \<noteq> TIME_TAG \<and> typ_code e = t) calls"

definition calls_of_tag ::
  "nat \<Rightarrow> (DirectoryEntry \<times> dataset) list \<Rightarrow> (DirectoryEntry \<times> dataset) list" where
  "calls_of_tag n calls = filter (\<lambda>(e, d). tag_number e = n) calls"

text \<open>\<open>None\<close> for no call, else the last one.\<close>

definition last_option :: "'a list \<Rightarrow> 'a option" where
  "last_option xs = (if xs = [] then None else Some (last xs))"

text \<open>\<open>None\<close> for no call, else all of them.\<close>

definition nonempty_option :: "'a list \<Rightarrow> 'a list option" where
  "nonempty_option xs = (if xs = [] then None else Some xs)"

subsection \<open>Example entries\<close>

text \<open>
  A time entry of an asynchronous buffer, whose type field holds the type of the
  event (5), and two entries of type 5 with tag numbers 7 and 8.
\<close>

definition entry_time5 :: DirectoryEntry where
  "entry_time5 =
     \<lparr> tag_number = 0, data_offset = 64, number_of_bytes = 36, samples = 2,
       bytes_per_sample = 18, typ_code = 5, parameter1 = 0, parameter2 = 0,
       parameter3 = 0, address = 43605 \<rparr>"

definition entry_tag7 :: DirectoryEntry where
  "entry_tag7 =
     \<lparr> tag_number = 7, data_offset = 100, number_of_bytes = 4096, samples = 1,
       bytes_per_sample = 4096, typ_code = 5, parameter1 = 0, parameter2 = 0,
       parameter3 = 0, address = 0 \<rparr>"

definition entry_tag8 :: DirectoryEntry where
  "entry_tag8 =
     \<lparr> tag_number = 8, data_offset = 4196, number_of_bytes = 4096, samples = 1,
       bytes_per_sample = 4096, typ_code = 5, parameter1 = 0, parameter2 = 0,
       parameter3 = 0, address = 0 \<rparr>"

text \<open>
  The time record with the fields (2019, 3, 1, 10, 0, 0, 5000, 10000, 0), encoded
  as nine little-endian 16-bit values.
\<close>

definition example_time_bytes :: "byte list" where
  "example_time_bytes = [227, 7, 3, 0, 1, 0, 10, 0, 0, 0, 0, 0, 136, 19, 16, 39, 0, 0]"

text \<open>The timestamp of this time record: 2019-03-01 10:00:00.500000.\<close>

definition example_datetime :: datetime where
  "example_datetime = \<lparr> dt_year = 2019, dt_month = 3, dt_day = 1, dt_hour = 10,
       dt_minute = 0, dt_second = 0, dt_microsecond = 500000 \<rparr>"

text \<open>
  An entry with tag number 7 and the given type, data offset, number of bytes, number
  of samples and bytes per sample.
\<close>

definition entry_typ :: "nat \<Rightarrow> nat \<Rightarrow> nat \<Rightarrow> nat \<Rightarrow> nat \<Rightarrow> DirectoryEntry" where
  "entry_typ t off nbytes n bps =
     \<lparr> tag_number = 7, data_offset = off, number_of_bytes = nbytes, samples = n,
       bytes_per_sample = bps, typ_code = t, parameter1 = 0, parameter2 = 0,
       parameter3 = 0, address = 0 \<rparr>"

subsection \<open>Synthetic files\<close>

text \<open>
  The source has no encoder. To speak about files of a given layout, \<open>pack_entry\<close>
  writes a directory entry as \<open>struct.pack('<HHHHHBBBBH', ...)\<close> would, for an entry
  whose fields fit their widths (\<open>entry_ok\<close>).
\<close>

definition pack_u16 :: "nat \<Rightarrow> byte list" where
  "pack_u16 n = [of_nat (n mod 256), of_nat (n div 256)]"

definition pack_entry :: "DirectoryEntry \<Rightarrow> byte list" where
  "pack_entry e =
     pack_u16 (tag_number e) @ pack_u16 (data_offset e) @ pack_u16 (number_of_bytes e)
     @ pack_u16 (samples e) @ pack_u16 (bytes_per_sample e)
     @ [of_nat (typ_code e), of_nat (parameter1 e), of_nat (parameter2 e),
        of_nat (parameter3 e)]
     @ pack_u16 (address e)"

definition entry_ok :: "DirectoryEntry \<Rightarrow> bool" where
  "entry_ok e =
     (tag_number e < 65536 \<and> data_offset e < 65536 \<and> number_of_bytes e < 65536
      \<and> samples e < 65536 \<and> bytes_per_sample e < 65536 \<and> typ_code e < 256
      \<and> parameter1 e < 256 \<and> parameter2 e < 256 \<and> parameter3 e < 256
      \<and> address e < 65536)"

text \<open>
  The two kinds of state of the scanner's loop before the end is reached: looking for
  the first entry of a buffer at position \<open>p\<close> (\<open>first_tag\<close> set, no entries
  collected, the buffer base at the cursor), and reading the entries of the buffer
  that starts at \<open>b\<close>.
\<close>

definition scanning :: "nat \<Rightarrow> nat \<Rightarrow> nat \<Rightarrow> DirectoryEntry list \<Rightarrow> bool \<Rightarrow> scan_state" where
  "scanning p st b es d =
     \<lparr> cursor = p, search_time = st, dir_base = b, dir_entries = es, drop_buffer = d,
       reached_end = False, first_tag = False \<rparr>"

definition seeking :: "nat \<Rightarrow> nat \<Rightarrow> bool \<Rightarrow> scan_state" where
  "seeking p st d =
     \<lparr> cursor = p, search_time = st, dir_base = p, dir_entries = [], drop_buffer = d,
       reached_end = False, first_tag = True \<rparr>"

text \<open>
  A segment is one buffer of a file: a time entry, further entries, the entry that
  ends the buffer, and the bytes after the directory. In a segment that ends with
  NEXT the data offset of the NEXT entry is the length of the segment. A synthetic
  file is a list of such segments followed by a segment that ends with LAST.
\<close>

record segment =
  seg_time :: DirectoryEntry
  seg_data :: "DirectoryEntry list"
  seg_end :: DirectoryEntry
  seg_payload :: "byte list"

definition seg_directory :: "segment \<Rightarrow> DirectoryEntry list" where
  "seg_directory sg = seg_time sg # seg_data sg @ [seg_end sg]"

definition seg_bytes :: "segment \<Rightarrow> byte list" where
  "seg_bytes sg = concat (map pack_entry (seg_directory sg)) @ seg_payload sg"

definition plain_entries :: "DirectoryEntry list \<Rightarrow> bool" where
  "plain_entries es =
     list_all (\<lambda>e. entry_ok e \<and> tag_number e \<noteq> NEXT_TAG \<and> tag_number e \<noteq> LAST_TAG) es"

definition next_segment :: "segment \<Rightarrow> bool" where
  "next_segment sg =
     (entry_ok (seg_time sg) \<and> time_signature (seg_time sg) \<and> plain_entries (seg_data sg)
      \<and> entry_ok (seg_end sg) \<and> tag_number (seg_end sg) = NEXT_TAG
      \<and> data_offset (seg_end sg) = length (seg_bytes sg))"

definition last_segment :: "segment \<Rightarrow> bool" where
  "last_segment sg =
     (entry_ok (seg_time sg) \<and> time_signature (seg_time sg) \<and> plain_entries (seg_data sg)
      \<and> entry_ok (seg_end sg) \<and> tag_number (seg_end sg) = LAST_TAG)"

definition synthetic_file :: "segment list \<Rightarrow> segment \<Rightarrow> byte list" where
  "synthetic_file nexts fin = concat (map seg_bytes nexts) @ seg_bytes fin"

text \<open>
  What the scanner yields for a segment: its entries, the time entry twice (it is
  appended once when it is recognised as the first entry and once more when the same
  position is read again), and its bytes.
\<close>

definition scanned :: "segment \<Rightarrow> raw_buffer" where
  "scanned sg = (seg_time sg # seg_directory sg, seg_bytes sg)"

fun any_match :: "filters \<Rightarrow> DirectoryEntry list \<Rightarrow> bool" where
  "any_match fs [] = False"
| "any_match fs (e # es) = (if matches fs e then True else any_match fs es)"

text \<open>
  The buffers the scanner yields for the segments that end with NEXT. \<open>d\<close> is
  \<open>drop_buffer\<close> at the start of the segment; after a segment it is set again
  unless the filter accepts the NEXT entry just read.
\<close>

fun kept_buffers :: "filters \<Rightarrow> bool \<Rightarrow> segment list \<Rightarrow> raw_buffer list" where
  "kept_buffers fs d [] = []"
| "kept_buffers fs d (sg # sgs) =
     (if d \<and> \<not> (fs \<noteq> [] \<and> any_match fs (seg_time sg # seg_data sg)) then []
      else [scanned sg])
     @ kept_buffers fs (fs \<noteq> [] \<and> \<not> matches fs (seg_end sg)) sgs"

text \<open>
  The buffers the scanner yields for the last segment: without LAST entry when no
  byte follows the directory (the loop ends before the LAST entry is read), twice
  when one to sixteen bytes follow it, once otherwise.
\<close>

definition final_buffers :: "segment \<Rightarrow> raw_buffer list" where
  "final_buffers fin =
     (if seg_payload fin = []
      then [(seg_time fin # seg_time fin # seg_data fin, seg_bytes fin)]
      else if length (seg_payload fin) \<le> 16 then [scanned fin, scanned fin]
      else [scanned fin])"

text \<open>The number of loop iterations for a synthetic file.\<close>

definition scan_fuel :: "segment list \<Rightarrow> segment \<Rightarrow> nat" where
  "scan_fuel nexts fin =
     sum_list (map (\<lambda>sg. length (seg_data sg) + 3) nexts) + length (seg_data fin) + 3"

text \<open>
  The order in which the states of the scanner's loop decrease when no NEXT entry
  has data offset 0: the buffer base moves forward, or else \<open>first_tag\<close> is
  cleared, or else the cursor moves forward.
\<close>

definition scan_order :: "byte list \<Rightarrow> (scan_state \<times> scan_state) set" where
  "scan_order c =
     measures [\<lambda>s. length c - dir_base s, \<lambda>s. if first_tag s then 1 else 0,
               \<lambda>s. length c - cursor s]"

subsection \<open>Example files\<close>

text \<open>
  A time entry with the signature the scanner looks for, a NEXT entry with a given
  data offset (below 256, one byte) and a LAST entry, each with its 16 bytes.
\<close>

definition time_entry_bytes :: "byte list" where
  "time_entry_bytes = [0, 0, 32, 0, 36, 0, 2, 0, 18, 0, 0, 0, 0, 0, 85, 170]"

definition next_entry_bytes :: "nat \<Rightarrow> byte list" where
  "next_entry_bytes off = [231, 3, of_nat off, 0, 0, 0, 0, 0, 0, 0, 0, 0, 0, 0, 0, 0]"

definition last_entry_bytes :: "byte list" where
  "last_entry_bytes = [255, 255, 0, 0, 0, 0, 0, 0, 0, 0, 0, 0, 0, 0, 0, 0]"

definition time_entry :: DirectoryEntry where
  "time_entry = \<lparr> tag_number = 0, data_offset = 32, number_of_bytes = 36, samples = 2,
       bytes_per_sample = 18, typ_code = 0, parameter1 = 0, parameter2 = 0,
       parameter3 = 0, address = 43605 \<rparr>"

definition next_entry :: "nat \<Rightarrow> DirectoryEntry" where
  "next_entry off = \<lparr> tag_number = 999, data_offset = off, number_of_bytes = 0, samples = 0,
       bytes_per_sample = 0, typ_code = 0, parameter1 = 0, parameter2 = 0,
       parameter3 = 0, address = 0 \<rparr>"

definition last_entry :: DirectoryEntry where
  "last_entry = \<lparr> tag_number = 65535, data_offset = 0, number_of_bytes = 0, samples = 0,
       bytes_per_sample = 0, typ_code = 0, parameter1 = 0, parameter2 = 0,
       parameter3 = 0, address = 0 \<rparr>"

text \<open>
  The entry read at offset 32 of \<open>resync_file\<close>: one byte 255 and the first 15
  bytes of the time entry.
\<close>

definition misaligned_entry :: DirectoryEntry where
  "misaligned_entry = \<lparr> tag_number = 255, data_offset = 8192, number_of_bytes = 9216,
       samples = 512, bytes_per_sample = 4608, typ_code = 0, parameter1 = 0,
       parameter2 = 0, parameter3 = 0, address = 21760 \<rparr>"

text \<open>A time entry, a NEXT entry with data offset 0, and one more byte.\<close>

definition loop_file :: "byte list" where
  "loop_file = time_entry_bytes @ [231, 3, 0, 0, 0, 0, 0, 0, 0, 0, 0, 0, 0, 0, 0, 0] @ [0]"

text \<open>
  A buffer of a time entry and a NEXT entry with data offset 32, one byte 255, and a
  last buffer of a time entry, a LAST entry and 20 bytes.
\<close>

definition resync_file :: "byte list" where
  "resync_file = time_entry_bytes @ next_entry_bytes 32 @ [255]
     @ time_entry_bytes @ last_entry_bytes @ replicate 20 0"

text \<open>
  A file of 124 bytes whose last buffer is cut short. Its first buffer has a time
  entry (time data at offset 48), a FILEDATA entry (one string of four bytes at offset
  84) and a NEXT entry with data offset 88, followed by the time data and the four
  bytes 97, 98, 99, 10. Its last buffer has a time entry, a LAST entry and four
  bytes: its time data, 36 bytes by its time entry, is cut off.
\<close>

definition filedata_entry :: DirectoryEntry where
  "filedata_entry = \<lparr> tag_number = 65531, data_offset = 84, number_of_bytes = 4,
       samples = 1, bytes_per_sample = 4, typ_code = 0, parameter1 = 0, parameter2 = 0,
       parameter3 = 0, address = 0 \<rparr>"

definition dup_seg :: segment where
  "dup_seg =
     \<lparr> seg_time = time_entry \<lparr> data_offset := 48 \<rparr>,
       seg_data = [filedata_entry],
       seg_end = next_entry 88,
       seg_payload = example_time_bytes @ replicate 18 0 @ [97, 98, 99, 10] \<rparr>"

definition dup_last :: segment where
  "dup_last =
     \<lparr> seg_time = time_entry, seg_data = [], seg_end = last_entry,
       seg_payload = [0, 0, 0, 0] \<rparr>"

definition dup_file :: "byte list" where
  "dup_file = synthetic_file [dup_seg] dup_last"

text \<open>The filter of \<open>_init_from_file\<close>.\<close>

definition filedata_filter :: filters where
  "filedata_filter = [(''tag_number'', [FILEDATA_TAG])]"

subsection \<open>Entries the decoder reads as data\<close>

text \<open>
  An entry is ordinary when its tag number takes none of the branches of
  \<open>iter_buffers\<close> for special tag numbers and is no secondary tag: it reaches the
  two branches that call \<open>_read_dataset\<close>. Under a non-empty filter an ordinary entry
  that no criterion accepts is skipped.
\<close>

definition ordinary :: "nat list \<Rightarrow> DirectoryEntry \<Rightarrow> bool" where
  "ordinary secondary e =
     (tag_number e \<noteq> TIME_TAG \<and> tag_number e \<noteq> NEXT_TAG
      \<and> \<not> (RESERVED_TAG_LOW_END \<le> tag_number e \<and> tag_number e \<le> RESERVED_TAG_HIGH_END)
      \<and> tag_number e \<noteq> FILENAME_TAG \<and> tag_number e \<noteq> FILEDATA_TAG
      \<and> tag_number e \<noteq> COMMAND_TAG \<and> tag_number e \<noteq> ERROR_TAG
      \<and> tag_number e \<noteq> SAME_TAG \<and> tag_number e \<noteq> LAST_TAG
      \<and> tag_number e \<notin> set secondary)"

definition skipped :: "filters \<Rightarrow> nat list \<Rightarrow> DirectoryEntry \<Rightarrow> bool" where
  "skipped fs secondary e = (ordinary secondary e \<and> \<not> matches fs e)"

text \<open>
  The results of \<open>_read_dataset\<close> on the entries of a raw buffer that come before
  its NEXT entry, have tag number \<open>n\<close> and are accepted by the filter, in order.
\<close>

definition accepted_reads ::
  "filters \<Rightarrow> byte list \<Rightarrow> nat \<Rightarrow> DirectoryEntry list \<Rightarrow> (error + dataset) list" where
  "accepted_reads fs raw n es =
     map (\<lambda>x. snd (read_dataset x raw))
       (filter (\<lambda>x. tag_number x = n \<and> matches fs x)
          (takeWhile (\<lambda>x. tag_number x \<noteq> NEXT_TAG) es))"

text \<open>
  A file for the filter \<open>{'tag_number': [7]}\<close>. Its first buffer has a time entry
  (time data at offset 64), two entries of type 1 with one 16-bit sample each, tag
  numbers 7 and 8 (data at offsets 100 and 102, values 258 and 772), and a NEXT
  entry; its last buffer has a time entry and a LAST entry.
\<close>

definition data_entry :: "nat \<Rightarrow> nat \<Rightarrow> DirectoryEntry" where
  "data_entry tag off =
     \<lparr> tag_number = tag, data_offset = off, number_of_bytes = 2, samples = 1,
       bytes_per_sample = 2, typ_code = 1, parameter1 = 0, parameter2 = 0,
       parameter3 = 0, address = 0 \<rparr>"

definition filter_payload :: "byte list" where
  "filter_payload = example_time_bytes @ replicate 18 0 @ [2, 1, 4, 3]"

definition filter_seg :: segment where
  "filter_seg =
     \<lparr> seg_time = time_entry \<lparr> data_offset := 64 \<rparr>,
       seg_data = [data_entry 7 100, data_entry 8 102],
       seg_end = next_entry 104,
       seg_payload = filter_payload \<rparr>"

definition filter_last :: segment where
  "filter_last =
     \<lparr> seg_time = time_entry, seg_data = [], seg_end = last_entry,
       seg_payload = example_time_bytes @ replicate 18 0 \<rparr>"

definition filter_file :: "byte list" where
  "filter_file = synthetic_file [filter_seg] filter_last"

definition tag7_filter :: filters where
  "tag7_filter = [(''tag_number'', [7])]"

definition filter_time_data :: dataset where
  "filter_time_data =
     [PInt 2019, PInt 3, PInt 1, PInt 10, PInt 0, PInt 0, PInt 5000, PInt 10000, PInt 0]"

section \<open>Properties\<close>

subsection \<open>The container \<open>Buffer\<close>\<close>

lemma add_datasets_snoc:
  "add_datasets b (calls @ [(e, d)]) = add_dataset (add_datasets b calls) e d"
  by (simp add: add_datasets_def)

lemma add_datasets_Nil: "add_datasets b [] = b"
  by (simp add: add_datasets_def)

lemma by_tag_add_dataset:
  "dir_entries_by_tag_number (add_dataset b e d)
     = (dir_entries_by_tag_number b)(tag_number e \<mapsto> e)"
  "datasets_by_tag_number (add_dataset b e d)
     = (datasets_by_tag_number b)(tag_number e \<mapsto> d)"
  by (simp_all add: add_dataset_def Let_def)

lemma by_typ_add_dataset:
  "dir_entries_by_typ (add_dataset b e d) =
     (if tag_number e \<noteq> TIME_TAG then append_at (dir_entries_by_typ b) (typ_code e) e
      else dir_entries_by_typ b)"
  "datasets_by_typ (add_dataset b e d) =
     (if tag_number e \<noteq> TIME_TAG then append_at (datasets_by_typ b) (typ_code e) d
      else datasets_by_typ b)"
  by (simp_all add: add_dataset_def Let_def)

lemma append_at_apply:
  "append_at m k x k' =
     (if k' = k then Some ((case m k of None \<Rightarrow> [] | Some xs \<Rightarrow> xs) @ [x]) else m k')"
  by (simp add: append_at_def split: option.splits)

lemma dir_entries_by_typ_add_datasets:
  "dir_entries_by_typ (add_datasets Buffer_init calls) t
     = nonempty_option (map fst (calls_of_typ t calls))"
proof (induction calls rule: rev_induct)
  case Nil
  show ?case
    by (simp add: add_datasets_Nil Buffer_init_def calls_of_typ_def nonempty_option_def)
next
  case (snoc c calls)
  obtain e d where c: "c = (e, d)" by (cases c)
  show ?case
    using snoc.IH
    by (auto simp: c add_datasets_snoc by_typ_add_dataset append_at_apply
        calls_of_typ_def nonempty_option_def split: if_splits)
qed

lemma datasets_by_typ_add_datasets:
  "datasets_by_typ (add_datasets Buffer_init calls) t
     = nonempty_option (map snd (calls_of_typ t calls))"
proof (induction calls rule: rev_induct)
  case Nil
  show ?case
    by (simp add: add_datasets_Nil Buffer_init_def calls_of_typ_def nonempty_option_def)
next
  case (snoc c calls)
  obtain e d where c: "c = (e, d)" by (cases c)
  show ?case
    using snoc.IH
    by (auto simp: c add_datasets_snoc by_typ_add_dataset append_at_apply
        calls_of_typ_def nonempty_option_def split: if_splits)
qed

lemma dir_entries_by_tag_number_add_datasets:
  "dir_entries_by_tag_number (add_datasets Buffer_init calls) n
     = last_option (map fst (calls_of_tag n calls))"
proof (induction calls rule: rev_induct)
  case Nil
  show ?case
    by (simp add: add_datasets_Nil Buffer_init_def calls_of_tag_def last_option_def)
next
  case (snoc c calls)
  obtain e d where c: "c = (e, d)" by (cases c)
  show ?case
    using snoc.IH
    by (simp add: c add_datasets_snoc by_tag_add_dataset calls_of_tag_def last_option_def)
qed

lemma datasets_by_tag_number_add_datasets:
  "datasets_by_tag_number (add_datasets Buffer_init calls) n
     = last_option (map snd (calls_of_tag n calls))"
proof (induction calls rule: rev_induct)
  case Nil
  show ?case
    by (simp add: add_datasets_Nil Buffer_init_def calls_of_tag_def last_option_def)
next
  case (snoc c calls)
  obtain e d where c: "c = (e, d)" by (cases c)
  show ?case
    using snoc.IH
    by (simp add: c add_datasets_snoc by_tag_add_dataset calls_of_tag_def last_option_def)
qed

text \<open>
  Claim C9. In a buffer built by any sequence of calls of \<open>add_dataset\<close>, the maps
  indexed by tag number hold, for each tag number, the entry and the dataset of the
  last call with that tag number, time entries included. The maps indexed by type
  hold, for each type, the entries and the datasets of exactly the calls whose entry
  is not a time entry and has this type, in the order of the calls; a type with no
  such call has no key. So a time entry is in the maps by tag number only, and every
  other entry is in both.
\<close>

theorem add_dataset_indexes:
  "dir_entries_by_tag_number (add_datasets Buffer_init calls) n
     = last_option (map fst (calls_of_tag n calls))
   \<and> datasets_by_tag_number (add_datasets Buffer_init calls) n
     = last_option (map snd (calls_of_tag n calls))
   \<and> dir_entries_by_typ (add_datasets Buffer_init calls) t
     = nonempty_option (map fst (calls_of_typ t calls))
   \<and> datasets_by_typ (add_datasets Buffer_init calls) t
     = nonempty_option (map snd (calls_of_typ t calls))"
  by (simp add: dir_entries_by_tag_number_add_datasets datasets_by_tag_number_add_datasets
      dir_entries_by_typ_add_datasets datasets_by_typ_add_datasets)

text \<open>
  The theorem at three calls: a time entry whose type field is 5, then two entries of
  type 5 with tag numbers 7 and 8. The time entry is found by its tag number and is
  absent from the list of type 5, which holds the other two in order.
\<close>

theorem add_dataset_indexes_witness:
  "dir_entries_by_tag_number
     (add_datasets Buffer_init
        [(entry_time5, [PInt 1]), (entry_tag7, [PInt 2]), (entry_tag8, [PInt 3])]) 0
     = Some entry_time5
   \<and> datasets_by_tag_number
     (add_datasets Buffer_init
        [(entry_time5, [PInt 1]), (entry_tag7, [PInt 2]), (entry_tag8, [PInt 3])]) 0
     = Some [PInt 1]
   \<and> dir_entries_by_typ
     (add_datasets Buffer_init
        [(entry_time5, [PInt 1]), (entry_tag7, [PInt 2]), (entry_tag8, [PInt 3])]) 5
     = Some [entry_tag7, entry_tag8]
   \<and> datasets_by_typ
     (add_datasets Buffer_init
        [(entry_time5, [PInt 1]), (entry_tag7, [PInt 2]), (entry_tag8, [PInt 3])]) 5
     = Some [[PInt 2], [PInt 3]]"
  using add_dataset_indexes
    [of "[(entry_time5, [PInt 1]), (entry_tag7, [PInt 2]), (entry_tag8, [PInt 3])]" 0 5]
  by (simp add: calls_of_tag_def calls_of_typ_def last_option_def nonempty_option_def
      entry_time5_def entry_tag7_def entry_tag8_def TIME_TAG_def)

text \<open>
  Claim C10. Two calls of \<open>add_dataset\<close> whose entries share a tag number other than
  TIME and share a type: the lookups by tag number return the second entry and the
  second dataset, and the lists of the type end with both entries and both datasets,
  in call order. On a fresh buffer the list of datasets of the type is exactly the
  two datasets. \<open>add_dataset\<close> has no path that raises or warns, so the model gives
  it no error result.
\<close>

theorem add_dataset_duplicate_tag:
  assumes "tag_number e1 = tag_number e2" and "tag_number e1 \<noteq> TIME_TAG"
    and "typ_code e1 = typ_code e2"
  shows "get_dataset_by_tag_number (add_dataset (add_dataset b e1 d1) e2 d2)
           (tag_number e1) = Inr d2
       \<and> get_dir_entry_by_tag_number (add_dataset (add_dataset b e1 d1) e2 d2)
           (tag_number e1) = Inr e2
       \<and> get_datasets_by_typ (add_dataset (add_dataset b e1 d1) e2 d2) (typ_code e1)
           = Inr ((case datasets_by_typ b (typ_code e1) of None \<Rightarrow> [] | Some ds \<Rightarrow> ds)
                  @ [d1, d2])
       \<and> get_dir_entries_by_typ (add_dataset (add_dataset b e1 d1) e2 d2) (typ_code e1)
           = Inr ((case dir_entries_by_typ b (typ_code e1) of None \<Rightarrow> [] | Some es \<Rightarrow> es)
                  @ [e1, e2])
       \<and> get_datasets_by_typ (add_dataset (add_dataset Buffer_init e1 d1) e2 d2)
           (typ_code e1) = Inr [d1, d2]"
  using assms
  by (simp add: get_dataset_by_tag_number_def get_dir_entry_by_tag_number_def
      get_datasets_by_typ_def get_dir_entries_by_typ_def lookup_or_KeyError_def
      by_tag_add_dataset by_typ_add_dataset append_at_apply Buffer_init_def)

text \<open>
  The theorem at two calls with the same entry (tag number 7, type 5) and the
  datasets 2 and 9: the lookup by tag number gives 9, the list of type 5 gives both.
\<close>

theorem add_dataset_duplicate_tag_witness:
  "get_dataset_by_tag_number
     (add_dataset (add_dataset Buffer_init entry_tag7 [PInt 2]) entry_tag7 [PInt 9]) 7
     = Inr [PInt 9]
   \<and> get_datasets_by_typ
     (add_dataset (add_dataset Buffer_init entry_tag7 [PInt 2]) entry_tag7 [PInt 9]) 5
     = Inr [[PInt 2], [PInt 9]]"
proof -
  have t: "tag_number entry_tag7 = 7" and c: "typ_code entry_tag7 = 5"
    by (simp_all add: entry_tag7_def)
  have "tag_number entry_tag7 \<noteq> TIME_TAG"
    by (simp add: entry_tag7_def TIME_TAG_def)
  from add_dataset_duplicate_tag [OF refl this refl, of Buffer_init "[PInt 2]" "[PInt 9]"]
  show ?thesis by (simp add: t c Buffer_init_def)
qed

subsection \<open>Float division on 16-bit fields\<close>

lemma round_half_even_of_int: "round_half_even (of_int k) = k"
  by (simp add: round_half_even_def)

lemma round_half_even_close: "\<bar>of_int (round_half_even y) - y\<bar> \<le> 1 / 2"
proof -
  have "of_int \<lfloor>y\<rfloor> \<le> y" "y < of_int \<lfloor>y\<rfloor> + 1" by linarith+
  then show ?thesis
    by (auto simp: round_half_even_def Let_def)
qed

lemma binade_le:
  assumes "0 < x" and "x < 2 ^ n" and "1 \<le> n"
  shows "binade x \<le> int n - 1"
proof (cases "1 \<le> x")
  case True
  have "\<lfloor>x\<rfloor> < 2 ^ n"
    using assms(2) by (metis floor_less_iff of_int_numeral of_int_power)
  then have "bitlen \<lfloor>x\<rfloor> \<le> int n"
    by (simp add: bitlen_le_iff_power)
  with True show ?thesis by (simp add: binade_def)
next
  case False
  have "0 \<le> bitlen (\<lceil>1 / x\<rceil> - 1)" by (rule bitlen_nonneg)
  with False assms(3) show ?thesis by (simp add: binade_def)
qed

lemma quantum:
  assumes "0 < x" and "x < 2 ^ n" and "1 \<le> n" and "n \<le> 52"
  obtains m where "53 - n \<le> m" and "pow2 (binade x - 52) = 1 / 2 ^ m"
proof -
  have b: "binade x \<le> int n - 1" using assms(1-3) by (rule binade_le)
  let ?m = "nat (52 - binade x)"
  have "53 - n \<le> ?m" using b assms(4) by linarith
  moreover have "pow2 (binade x - 52) = 1 / 2 ^ ?m"
    using b assms(4) by (simp add: pow2_def)
  ultimately show ?thesis by (rule that)
qed

lemma scaled_round_close:
  fixes u :: rat
  assumes "0 < u"
  shows "\<bar>of_int (round_half_even (x / u)) * u - x\<bar> \<le> u / 2"
proof -
  have "of_int (round_half_even (x / u)) * u - x = (of_int (round_half_even (x / u)) - x / u) * u"
    using assms by (simp add: left_diff_distrib)
  then have "\<bar>of_int (round_half_even (x / u)) * u - x\<bar>
      = \<bar>of_int (round_half_even (x / u)) - x / u\<bar> * u"
    using assms by (simp only: abs_mult abs_of_pos)
  also have "\<dots> \<le> 1 / 2 * u"
    using round_half_even_close [of "x / u"] assms by (rule mult_right_mono [OF _ less_imp_le])
  finally show ?thesis by simp
qed

lemma round_binary64_close:
  assumes "0 < x" and "x < 2 ^ n" and "1 \<le> n" and "n \<le> 52"
  shows "\<bar>round_binary64 x - x\<bar> \<le> 1 / 2 ^ (54 - n)"
proof -
  obtain m where m: "53 - n \<le> m" and u: "pow2 (binade x - 52) = 1 / 2 ^ m"
    using assms by (rule quantum)
  define v :: rat where "v = 1 / 2 ^ m"
  have v: "0 < v" by (simp add: v_def)
  have r: "round_binary64 x = of_int (round_half_even (x / v)) * v"
    using assms(1) by (simp add: round_binary64_def Let_def u v_def)
  have "\<bar>round_binary64 x - x\<bar> \<le> v / 2"
    unfolding r using v by (rule scaled_round_close)
  also have "v / 2 = 1 / 2 ^ (Suc m)" by (simp add: v_def)
  also have "\<dots> \<le> 1 / 2 ^ (54 - n)"
  proof -
    have "54 - n \<le> Suc m" using m assms(4) by linarith
    then have "(2::rat) ^ (54 - n) \<le> 2 ^ Suc m" by (rule power_increasing) simp
    then show ?thesis by (simp add: frac_le)
  qed
  finally show ?thesis .
qed

lemma round_binary64_exact:
  assumes "0 < x" and "x < 2 ^ n" and "1 \<le> n" and "n \<le> 52"
    and "x = of_int c / 2 ^ j" and "j \<le> 53 - n"
  shows "round_binary64 x = x"
proof -
  obtain m where m: "53 - n \<le> m" and u: "pow2 (binade x - 52) = 1 / 2 ^ m"
    using assms(1-4) by (rule quantum)
  let ?u = "1 / (2::rat) ^ m"
  have r: "round_binary64 x = of_int (round_half_even (x / ?u)) * ?u"
    using assms(1) by (simp add: round_binary64_def Let_def u)
  have jm: "j \<le> m" using m assms(6) by linarith
  have "x / ?u = of_int c * (2 ^ m / 2 ^ j)" by (simp add: assms(5))
  also have "(2::rat) ^ m / 2 ^ j = 2 ^ (m - j)" using jm by (simp add: power_diff)
  also have "of_int c * (2::rat) ^ (m - j) = of_int (c * 2 ^ (m - j))" by simp
  finally have "x / ?u = of_int (c * 2 ^ (m - j))" .
  then have "of_int (round_half_even (x / ?u)) = x / ?u"
    by (simp only: round_half_even_of_int)
  then show ?thesis by (simp add: r)
qed

lemma ceil_div16: "\<lceil>(of_nat n :: rat) / 16\<rceil> = int ((n + 15) div 16)"
proof -
  have "\<lceil>(of_nat n :: rat) / 16\<rceil> = \<lceil>(of_int (int n) :: rat) / of_int 16\<rceil>" by simp
  also have "\<dots> = - (- int n div 16)" by (rule ceiling_divide_eq_div)
  also have "\<dots> = int ((n + 15) div 16)" by (simp add: zdiv_int)
  finally show ?thesis .
qed

lemma num_slices:
  assumes "bps < 65536"
  shows "py_ceil (py_truediv bps 16) = (bps + 15) div 16"
proof (cases "bps = 0")
  case True
  then show ?thesis by (simp add: py_ceil_def py_truediv_def round_binary64_def)
next
  case False
  let ?x = "(of_nat bps :: rat) / of_nat 16"
  have pos: "0 < ?x" using False by simp
  have lt: "?x < 2 ^ 12"
  proof -
    have "(of_nat bps :: rat) < of_nat 65536" using assms by (simp only: of_nat_less_iff)
    then show ?thesis by simp
  qed
  have e: "round_binary64 ?x = ?x"
    by (rule round_binary64_exact [OF pos lt, where c = "int bps" and j = 4]) simp_all
  have "py_ceil (py_truediv bps 16) = nat \<lceil>?x\<rceil>"
    unfolding py_ceil_def py_truediv_def e ..
  also have "\<dots> = (bps + 15) div 16"
    using ceil_div16 [of bps] by simp
  finally show ?thesis .
qed

subsection \<open>Time\<close>

lemma microsecond_floor:
  assumes f: "f < 65536" and b0: "0 < b" and b: "b < 65536"
  shows "py_int (py_truediv (1000000 * f) b) = (1000000 * f) div b"
proof (cases "f = 0")
  case True
  then show ?thesis by (simp add: py_int_def py_truediv_def round_binary64_def)
next
  case False
  define a where "a = 1000000 * f"
  define x :: rat where "x = of_nat a / of_nat b"
  define k where "k = a div b"
  define r where "r = a mod b"
  have a: "a = k * b + r" by (simp add: k_def r_def)
  have rb: "r < b" using b0 by (simp add: r_def)
  have bpos: "(0::rat) < of_nat b" using b0 by simp
  have xk: "x = of_nat k + of_nat r / of_nat b"
    using b0 by (simp add: x_def a field_simps)
  have "a \<ge> 1000000" using False by (simp add: a_def)
  then have "b < a" using b by linarith
  then have x1: "1 < x" using b0 by (simp add: x_def)
  then have x0: "0 < x" by linarith
  have "a < 2 ^ 36" using f by (simp add: a_def)
  then have "(of_nat a :: rat) < 2 ^ 36"
    by (metis of_nat_less_iff of_nat_numeral of_nat_power)
  moreover have "x \<le> of_nat a"
    using b0 by (simp add: x_def field_simps mult_le_cancel_left1)
  ultimately have x36: "x < 2 ^ 36" by linarith
  show ?thesis
  proof (cases "r = 0")
    case True
    have "round_binary64 x = x"
      by (rule round_binary64_exact [OF x0 x36, where c = "int k" and j = 0])
        (simp_all add: xk True)
    then have "\<lfloor>round_binary64 x\<rfloor> = int k" using True by (simp add: xk)
    then show ?thesis
      by (simp add: py_int_def py_truediv_def x_def[symmetric] a_def[symmetric] k_def)
  next
    case False
    have close: "\<bar>round_binary64 x - x\<bar> \<le> 1 / 2 ^ 18"
      using round_binary64_close [OF x0 x36] by simp
    have inv: "1 / (2::rat) ^ 16 < 1 / of_nat b"
    proof -
      have "(of_nat b :: rat) < of_nat 65536" using b by (simp only: of_nat_less_iff)
      then show ?thesis using bpos by (simp add: frac_less2)
    qed
    have "1 \<le> r" using False by simp
    then have "(1::rat) / of_nat b \<le> of_nat r / of_nat b"
      using bpos by (simp add: divide_le_cancel)
    then have lo: "of_nat k + 1 / 2 ^ 16 < x" using inv unfolding xk by linarith
    have "r + 1 \<le> b" using rb by simp
    then have "(of_nat r :: rat) + 1 \<le> of_nat b"
      by (metis of_nat_le_iff of_nat_add of_nat_1)
    then have "(of_nat r :: rat) / of_nat b \<le> 1 - 1 / of_nat b"
      using bpos by (simp add: field_simps)
    then have hi: "x < of_nat k + 1 - 1 / 2 ^ 16" using inv unfolding xk by linarith
    have c2: "round_binary64 x - x \<le> 1 / 2 ^ 18" "x - round_binary64 x \<le> 1 / 2 ^ 18"
      using close by (simp_all only: abs_le_iff minus_diff_eq)
    have "(1::rat) / 2 ^ 18 < 1 / 2 ^ 16" by simp
    then have "of_nat k \<le> round_binary64 x" "round_binary64 x < of_nat k + 1"
      using c2 lo hi by linarith+
    then have "\<lfloor>round_binary64 x\<rfloor> = int k"
      by (simp add: floor_unique)
    then show ?thesis
      by (simp add: py_int_def py_truediv_def x_def[symmetric] a_def[symmetric] k_def)
  qed
qed

lemma u16_at_less: "u16_at bs i < 65536"
proof -
  have "unat (bs ! i) < 256" "unat (bs ! (i + 1)) < 256"
    using unsigned_less [of "bs ! i"] unsigned_less [of "bs ! (i + 1)"] by simp_all
  then show ?thesis by (simp add: u16_at_def)
qed

text \<open>
  Claim C7. For every time record read from 18 bytes (nine unsigned 16-bit fields)
  whose \<open>max_sys_freq\<close> is not zero, the conversion succeeds exactly when the fields
  with the microsecond \<open>floor(1000000 * fraction_of_second / max_sys_freq)\<close> form
  a valid calendar tuple, and the timestamp then carries exactly that microsecond:
  the float division of the source, truncated by \<open>int\<close>, agrees with the integer
  quotient for all 16-bit fields.
\<close>

theorem datetime_microsecond:
  assumes "offset + 18 \<le> length data"
    and "max_sys_freq (SEATime_unpack (drop offset data)) \<noteq> 0"
  shows "datetime_from_raw_seatime data offset =
      (let t = SEATime_unpack (drop offset data);
           us = (1000000 * fraction_of_second t) div max_sys_freq t
       in if datetime_valid (year t) (month t) (day t) (hour t) (minute t) (second t) us
          then Inr \<lparr> dt_year = year t, dt_month = month t, dt_day = day t,
                     dt_hour = hour t, dt_minute = minute t, dt_second = second t,
                     dt_microsecond = us \<rparr>
          else Inl ValueError)"
proof -
  let ?t = "SEATime_unpack (drop offset data)"
  have "fraction_of_second ?t < 65536" "max_sys_freq ?t < 65536"
    by (simp_all add: SEATime_unpack_def u16_at_less)
  moreover have "0 < max_sys_freq ?t" using assms(2) by simp
  ultimately have "py_int (py_truediv (1000000 * fraction_of_second ?t) (max_sys_freq ?t))
      = (1000000 * fraction_of_second ?t) div max_sys_freq ?t"
    by (simp add: microsecond_floor)
  then show ?thesis
    using assms
    by (simp add: datetime_from_raw_seatime_def datetime_from_seatime_def datetime_new_def
        Let_def)
qed

text \<open>
  The example of the claim: the fields (2019, 3, 1, 10, 0, 0, 5000, 10000, 0) decode
  to 2019-03-01 10:00:00 with microsecond 500000.
\<close>

theorem datetime_microsecond_witness:
  "datetime_from_raw_seatime example_time_bytes 0 =
     Inr \<lparr> dt_year = 2019, dt_month = 3, dt_day = 1, dt_hour = 10, dt_minute = 0,
           dt_second = 0, dt_microsecond = 500000 \<rparr>"
proof -
  have t: "SEATime_unpack example_time_bytes =
      \<lparr> year = 2019, month = 3, day = 1, hour = 10, minute = 0, second = 0,
        fraction_of_second = 5000, max_sys_freq = 10000, buffer_life_span = 0 \<rparr>"
    by (simp add: SEATime_unpack_def example_time_bytes_def u16_at_def)
  have "0 + 18 \<le> length example_time_bytes" by (simp add: example_time_bytes_def)
  moreover have "max_sys_freq (SEATime_unpack (drop 0 example_time_bytes)) \<noteq> 0"
    by (simp add: t)
  ultimately show ?thesis
    using datetime_microsecond [of 0 example_time_bytes]
    by (simp add: t datetime_valid_def days_in_month_def is_leap_def)
qed

subsection \<open>Sample formats and bounds of \<open>_read_dataset\<close>\<close>

lemma calcsize_Nil: "calcsize [] = 0"
  by (simp add: calcsize_def)

lemma calcsize_Cons: "calcsize (f # fs) = calcsize1 f + calcsize fs"
  by (simp add: calcsize_def)

lemma calcsize_append: "calcsize (fs @ gs) = calcsize fs + calcsize gs"
  by (simp add: calcsize_def)

lemma calcsize_replicate: "calcsize (replicate n f) = n * calcsize1 f"
  by (simp add: calcsize_def sum_list_replicate)

lemma calcsize_concat_replicate: "calcsize (concat (replicate n fs)) = n * calcsize fs"
  by (induction n) (simp_all add: calcsize_append, simp add: calcsize_def)

lemma length_unpack_fields: "length (unpack_fields fs bs) = length fs"
  by (induction fs arbitrary: bs) simp_all

lemma length_concat_replicate: "length (concat (replicate n fs)) = n * length fs"
  by (induction n) simp_all

text \<open>
  Claim C6, as amended. For an entry with a 16-bit \<open>bytes_per_sample\<close>, the format of
  one sample is: type 1, one signed 16-bit integer; type 2, twenty unsigned 16-bit
  integers and two signed 8-bit integers; type 5, 1024 unsigned 32-bit integers;
  type 66, \<open>ceil(bytes_per_sample / 16)\<close> pairs of unsigned 64-bit integers, with
  one warning exactly when \<open>bytes_per_sample\<close> is not a multiple of 16; type 78,
  4096 unsigned 8-bit integers followed by one unsigned 16-bit integer.
\<close>

theorem sample_layouts:
  assumes "bytes_per_sample e < 65536"
  shows "sample_string (e\<lparr>typ_code := 1\<rparr>) = Some ([Fmt_h], [])
       \<and> sample_string (e\<lparr>typ_code := 2\<rparr>) = Some (replicate 20 Fmt_H @ [Fmt_b, Fmt_b], [])
       \<and> sample_string (e\<lparr>typ_code := 5\<rparr>) = Some (replicate 1024 Fmt_I, [])
       \<and> sample_string (e\<lparr>typ_code := 66\<rparr>)
           = Some (concat (replicate ((bytes_per_sample e + 15) div 16) [Fmt_Q, Fmt_Q]),
                   if bytes_per_sample e mod 16 = 0 then []
                   else [NotMultipleOf128Bits (bytes_per_sample e)])
       \<and> sample_string (e\<lparr>typ_code := 78\<rparr>) = Some (replicate 4096 Fmt_B @ [Fmt_H], [])"
  using assms by (simp add: sample_string_def Let_def num_slices)

text \<open>
  The theorem at an entry with 24 bytes per sample: type 66 gives two pairs of
  unsigned 64-bit integers and the warning, type 1 one signed 16-bit integer.
\<close>

theorem sample_layouts_witness:
  "sample_string (entry_typ 66 0 48 2 24)
     = Some ([Fmt_Q, Fmt_Q, Fmt_Q, Fmt_Q], [NotMultipleOf128Bits 24])
   \<and> sample_string (entry_typ 1 0 48 2 24) = Some ([Fmt_h], [])"
proof -
  have "bytes_per_sample (entry_typ 0 0 48 2 24) < 65536" by (simp add: entry_typ_def)
  from sample_layouts [OF this] show ?thesis
    by (simp add: entry_typ_def numeral_2_eq_2)
qed

text \<open>
  Claim C6 as stated fails for type 78: the format of a sample is not 4096 unsigned
  8-bit integers; it has 4097 fields and 4098 bytes.
\<close>

theorem type78_layout_counterexample:
  "sample_string (entry_typ 78 0 4096 1 4096) \<noteq> Some (replicate 4096 Fmt_B, [])
   \<and> map_option (length \<circ> fst) (sample_string (entry_typ 78 0 4096 1 4096)) = Some 4097
   \<and> map_option (calcsize \<circ> fst) (sample_string (entry_typ 78 0 4096 1 4096)) = Some 4098"
  by (simp add: sample_string_def entry_typ_def calcsize_append calcsize_replicate
      calcsize_Cons calcsize_Nil)

lemma read_dataset_known:
  assumes "sample_string e = Some (ss, ws)"
    and "samples e * bytes_per_sample e \<le> number_of_bytes e"
  shows "read_dataset e raw =
     (if length raw < data_offset e + samples e * bytes_per_sample e
      then (ws @ [DatasetBeyondBuffer (data_offset e + samples e * bytes_per_sample e)
                    (length raw)], Inl ValueError)
      else if length raw < data_offset e + samples e * calcsize ss
      then (ws, Inl StructError)
      else (ws, Inr (unpack_fields (concat (replicate (samples e) ss))
                       (drop (data_offset e) raw))))"
  using assms
  by (simp add: read_dataset_def Let_def read_dataset_raw_def unpack_from_def
      calcsize_concat_replicate)

text \<open>
  Claim C3, as amended. For an entry of a known acquisition type whose
  \<open>number_of_bytes\<close> is at least \<open>expected_size = samples * bytes_per_sample\<close>:
  if \<open>data_offset + expected_size\<close> exceeds the length of the raw buffer (by one or
  more), \<open>ValueError\<close> is raised and nothing is decoded; otherwise the check passes,
  and decoding succeeds, with \<open>samples\<close> times the fields of the sample format,
  exactly when \<open>data_offset + samples * (size of the sample format)\<close> is within the
  buffer, and else raises \<open>struct.error\<close>. It succeeds in particular whenever the
  size of the sample format is at most \<open>bytes_per_sample\<close>.
\<close>

theorem read_dataset_bounds:
  assumes "sample_string e = Some (ss, ws)"
    and "samples e * bytes_per_sample e \<le> number_of_bytes e"
  shows "(length raw < data_offset e + samples e * bytes_per_sample e
            \<longrightarrow> snd (read_dataset e raw) = Inl ValueError)
       \<and> (data_offset e + samples e * bytes_per_sample e \<le> length raw
            \<longrightarrow> (case snd (read_dataset e raw) of
                   Inr d \<Rightarrow> data_offset e + samples e * calcsize ss \<le> length raw
                            \<and> length d = samples e * length ss
                 | Inl err \<Rightarrow> err = StructError
                            \<and> length raw < data_offset e + samples e * calcsize ss))
       \<and> (calcsize ss \<le> bytes_per_sample e
            \<and> data_offset e + samples e * bytes_per_sample e \<le> length raw
            \<longrightarrow> (\<exists>d. snd (read_dataset e raw) = Inr d))"
proof (intro conjI impI)
  assume "length raw < data_offset e + samples e * bytes_per_sample e"
  then show "snd (read_dataset e raw) = Inl ValueError"
    by (simp add: read_dataset_known [OF assms])
next
  assume "data_offset e + samples e * bytes_per_sample e \<le> length raw"
  then show "case snd (read_dataset e raw) of
      Inr d \<Rightarrow> data_offset e + samples e * calcsize ss \<le> length raw
               \<and> length d = samples e * length ss
    | Inl err \<Rightarrow> err = StructError
               \<and> length raw < data_offset e + samples e * calcsize ss"
    by (simp add: read_dataset_known [OF assms] length_unpack_fields
        length_concat_replicate)
next
  assume a: "calcsize ss \<le> bytes_per_sample e
      \<and> data_offset e + samples e * bytes_per_sample e \<le> length raw"
  then have "samples e * calcsize ss \<le> samples e * bytes_per_sample e" by simp
  with a have "data_offset e + samples e * calcsize ss \<le> length raw" by linarith
  with a show "\<exists>d. snd (read_dataset e raw) = Inr d"
    by (simp add: read_dataset_known [OF assms])
qed

text \<open>
  An entry of type 1 with two samples of two bytes at offset 2: with a buffer of six
  bytes it decodes, with a buffer of five bytes it raises \<open>ValueError\<close>.
\<close>

theorem read_dataset_bounds_witness:
  "snd (read_dataset (entry_typ 1 2 4 2 2) [0, 0, 1, 0, 255, 255])
     = Inr [PInt 1, PInt (- 1)]
   \<and> snd (read_dataset (entry_typ 1 2 4 2 2) [0, 0, 1, 0, 255]) = Inl ValueError"
proof -
  have s: "sample_string (entry_typ 1 2 4 2 2) = Some ([Fmt_h], [])"
    by (simp add: sample_string_def entry_typ_def)
  have n: "samples (entry_typ 1 2 4 2 2) * bytes_per_sample (entry_typ 1 2 4 2 2)
      \<le> number_of_bytes (entry_typ 1 2 4 2 2)"
    by (simp add: entry_typ_def)
  have "snd (read_dataset (entry_typ 1 2 4 2 2) [0, 0, 1, 0, 255]) = Inl ValueError"
    using read_dataset_bounds [OF s n, of "[0, 0, 1, 0, 255]"]
    by (simp add: entry_typ_def)
  moreover have "snd (read_dataset (entry_typ 1 2 4 2 2) [0, 0, 1, 0, 255, 255])
      = Inr [PInt 1, PInt (- 1)]"
  proof -
    have c: "replicate 2 x = [x, x]" for x :: 'a
      by (simp add: numeral_2_eq_2)
    show ?thesis
      by (simp add: read_dataset_def sample_string_def entry_typ_def read_dataset_raw_def
          unpack_from_def c calcsize_def to_signed_def)
  qed
  ultimately show ?thesis by simp
qed

text \<open>
  Claim C3 as stated fails in both halves. An entry of type 1 declaring one sample of
  one byte at offset 0 in a buffer of one byte ends exactly at the end of the buffer,
  and \<open>struct.error\<close> is raised (the format \<open>h\<close> needs two bytes). An entry of type
  1 declaring one sample of four bytes but two bytes in all, at offset 0 in a buffer
  of three bytes, ends one byte past the buffer, and decodes with a warning only
  (the bounds check is skipped when \<open>number_of_bytes\<close> is below the expected size).
\<close>

theorem read_dataset_bounds_counterexample:
  "sample_string (entry_typ 1 0 1 1 1) \<noteq> None
   \<and> data_offset (entry_typ 1 0 1 1 1)
       + samples (entry_typ 1 0 1 1 1) * bytes_per_sample (entry_typ 1 0 1 1 1)
     = length [0 :: byte]
   \<and> read_dataset (entry_typ 1 0 1 1 1) [0] = ([], Inl StructError)
   \<and> sample_string (entry_typ 1 0 2 1 4) \<noteq> None
   \<and> data_offset (entry_typ 1 0 2 1 4)
       + samples (entry_typ 1 0 2 1 4) * bytes_per_sample (entry_typ 1 0 2 1 4)
     = length [5, 0, 0 :: byte] + 1
   \<and> read_dataset (entry_typ 1 0 2 1 4) [5, 0, 0]
     = ([FewerBytesThanExpected 2 4], Inr [PInt 5])"
  by (simp add: read_dataset_def sample_string_def entry_typ_def read_dataset_raw_def
      unpack_from_def calcsize_def to_signed_def)

subsection \<open>Invalid filter criteria and a scan that does not end\<close>

lemma remove_invalid_bogus:
  "remove_invalid [(''tag_number'', [7]), (''bogus'', [1])]
     = ([NonexistentAttribute ''bogus''], Inl RuntimeError)"
  by (simp add: remove_invalid_def hasattr_entry_def object_attributes_def)

text \<open>
  Claim C8 fails on the code. For the filter \<open>{'tag_number': [7], 'bogus': [1]}\<close>,
  whatever the file, the scanner issues the warning for \<open>bogus\<close>, deletes the key
  while iterating over the keys of the same dict, and the iteration then raises
  \<open>RuntimeError\<close>: no buffer is scanned with the remaining criterion.
\<close>

theorem invalid_filter_raises:
  "raw_buffers fuel contents [(''tag_number'', [7]), (''bogus'', [1])]
     = ([NonexistentAttribute ''bogus''], [], Raised RuntimeError)"
  unfolding raw_buffers_def remove_invalid_bogus by simp

lemma remove_invalid_loop_size:
  "length fs \<noteq> used \<Longrightarrow> snd (remove_invalid_loop used ks fs ws) = Inl RuntimeError"
  by (cases ks) simp_all

lemma remove_invalid_loop_raises:
  assumes "length fs = used" and "set ks \<subseteq> fst ` set fs"
    and "\<exists>a \<in> set ks. \<not> hasattr_entry a"
  shows "snd (remove_invalid_loop used ks fs ws) = Inl RuntimeError"
  using assms
proof (induction ks arbitrary: ws)
  case Nil
  then show ?case by simp
next
  case (Cons k ks)
  show ?case
  proof (cases "hasattr_entry k")
    case True
    with Cons.prems have "\<exists>a \<in> set ks. \<not> hasattr_entry a" by auto
    with Cons.IH Cons.prems True show ?thesis by simp
  next
    case False
    from Cons.prems(2) obtain vs where "(k, vs) \<in> set fs" by auto
    then have "length (filter (\<lambda>(a, vs). a \<noteq> k) fs) < length fs"
      by (intro length_filter_less [where x = "(k, vs)"]) simp_all
    then have "length (filter (\<lambda>(a, vs). a \<noteq> k) fs) \<noteq> used"
      using Cons.prems(1) by simp
    then show ?thesis
      using False Cons.prems(1) by (simp add: remove_invalid_loop_size)
  qed
qed

lemma remove_invalid_raises:
  assumes "a \<in> fst ` set fs" and "\<not> hasattr_entry a"
  shows "snd (remove_invalid fs) = Inl RuntimeError"
  unfolding remove_invalid_def
  using assms by (intro remove_invalid_loop_raises) auto

lemma remove_invalid_loop_valid:
  assumes "length fs = used" and "list_all hasattr_entry ks"
  shows "remove_invalid_loop used ks fs ws = (ws, Inr fs)"
  using assms by (induction ks) simp_all

lemma remove_invalid_valid:
  "list_all hasattr_entry (map fst fs) \<Longrightarrow> remove_invalid fs = ([], Inr fs)"
  by (simp add: remove_invalid_def remove_invalid_loop_valid)

lemma loop_step1:
  "scan_step loop_file [] (initial_state [])
     = Inr ([], (initial_state []) \<lparr> dir_entries := [time_entry], first_tag := False \<rparr>)"
  by (simp add: scan_step_def new_from_raw_data_def loop_file_def time_entry_bytes_def
      u16_at_def u8_at_def initial_state_def on_first_tag_def time_signature_def
      TIME_TAG_def end_guard_def SIZE_def time_entry_def)

lemma loop_step2:
  "scan_step loop_file []
       ((initial_state []) \<lparr> dir_entries := [time_entry], first_tag := False \<rparr>)
     = Inr ([], (initial_state [])
                  \<lparr> dir_entries := [time_entry, time_entry], first_tag := False,
                    cursor := 16 \<rparr>)"
  by (simp add: scan_step_def new_from_raw_data_def loop_file_def time_entry_bytes_def
      u16_at_def u8_at_def initial_state_def on_entry_def on_tag_def
      TIME_TAG_def end_guard_def SIZE_def time_entry_def NEXT_TAG_def)

lemma loop_step3:
  "scan_step loop_file []
       ((initial_state [])
          \<lparr> dir_entries := [time_entry, time_entry], first_tag := False, cursor := 16 \<rparr>)
     = Inr ([([time_entry, time_entry, next_entry 0], [])], initial_state [])"
  by (simp add: scan_step_def new_from_raw_data_def loop_file_def time_entry_bytes_def
      u16_at_def u8_at_def initial_state_def on_entry_def on_tag_def
      TIME_TAG_def end_guard_def SIZE_def time_entry_def NEXT_TAG_def next_entry_def
      bytes_slice_def)

lemma raw_buffers_loop_Suc3:
  "raw_buffers_loop (Suc (Suc (Suc n))) loop_file [] (initial_state [])
     = (([time_entry, time_entry, next_entry 0], [])
          # fst (raw_buffers_loop n loop_file [] (initial_state [])),
        snd (raw_buffers_loop n loop_file [] (initial_state [])))"
proof -
  have r: "\<not> reached_end (initial_state [])" by (simp add: initial_state_def)
  show ?thesis
    by (simp add: r loop_step1 loop_step2 loop_step3 split: prod.splits)
qed

lemma loop_file_never_ends:
  "snd (raw_buffers_loop n loop_file [] (initial_state [])) = OutOfFuel
   \<and> length (fst (raw_buffers_loop n loop_file [] (initial_state []))) = n div 3"
proof (induction n rule: less_induct)
  case (less n)
  have r: "\<not> reached_end (initial_state [])" by (simp add: initial_state_def)
  consider "n = 0" | "n = Suc 0" | "n = Suc (Suc 0)" | m where "n = Suc (Suc (Suc m))"
    by (metis not0_implies_Suc)
  then show ?case
  proof cases
    case 1
    then show ?thesis by (simp add: r)
  next
    case 2
    then show ?thesis by (simp add: r loop_step1)
  next
    case 3
    then show ?thesis
      by (simp add: r loop_step1 loop_step2)
  next
    case 4
    have "m < n" using 4 by simp
    from less.IH [OF this] show ?thesis
      unfolding 4 raw_buffers_loop_Suc3 by simp
  qed
qed

text \<open>
  Claim C4 fails on the code. On \<open>loop_file\<close>, whose NEXT entry has data offset 0,
  the loop returns to its initial state every three iterations and yields a buffer
  each time: for every number \<open>n\<close> of iterations the generator has not ended and has
  yielded \<open>n div 3\<close> buffers.
\<close>

theorem zero_offset_next_never_ends:
  "snd (snd (raw_buffers n loop_file [])) = OutOfFuel
   \<and> length (fst (snd (raw_buffers n loop_file []))) = n div 3"
  using loop_file_never_ends [of n]
  by (simp add: raw_buffers_def remove_invalid_def split: prod.splits)

subsection \<open>Single iterations of the scanner\<close>

lemma length_pack_entry: "length (pack_entry e) = 16"
  by (simp add: pack_entry_def pack_u16_def)

lemma unat_byte: "n < 256 \<Longrightarrow> unat (of_nat n :: byte) = n"
  by (simp add: unat_of_nat)

lemma parse_pack_entry:
  assumes "entry_ok e"
  shows "\<lparr> tag_number = u16_at (pack_entry e @ post) 0,
           data_offset = u16_at (pack_entry e @ post) 2,
           number_of_bytes = u16_at (pack_entry e @ post) 4,
           samples = u16_at (pack_entry e @ post) 6,
           bytes_per_sample = u16_at (pack_entry e @ post) 8,
           typ_code = u8_at (pack_entry e @ post) 10,
           parameter1 = u8_at (pack_entry e @ post) 11,
           parameter2 = u8_at (pack_entry e @ post) 12,
           parameter3 = u8_at (pack_entry e @ post) 13,
           address = u16_at (pack_entry e @ post) 14 \<rparr> = e"
proof -
  have d: "n div 256 < 256" if "n < 65536" for n :: nat using that by simp
  have u: "n div 256 mod 256 = n div 256" if "n < 65536" for n :: nat
    using d [OF that] by simp
  show ?thesis
    using assms
    by (cases e)
      (simp add: entry_ok_def pack_entry_def pack_u16_def u16_at_def u8_at_def u
        unat_of_nat)
qed

lemma new_from_raw_data_pack:
  assumes "entry_ok e"
  shows "new_from_raw_data (pre @ pack_entry e @ post) (length pre) = Inr e"
  using parse_pack_entry [OF assms, of post]
  by (simp add: new_from_raw_data_def length_pack_entry)

lemma on_tag_other:
  assumes "tag_number e \<noteq> NEXT_TAG" and "tag_number e \<noteq> LAST_TAG"
  shows "on_tag c fs e s = ([], s)"
  using assms by (simp add: on_tag_def)

lemma seek_match:
  assumes "new_from_raw_data c p = Inr e" and "time_signature e" and "p + 16 < length c"
  shows "scan_step c fs (seeking p st d) = Inr ([], scanning p st p [e] d)"
  using assms
  by (simp add: scan_step_def seeking_def scanning_def on_first_tag_def end_guard_def
      SIZE_def)

lemma seek_mismatch:
  assumes "new_from_raw_data c p = Inr e" and "\<not> time_signature e"
    and "p + 17 < length c"
  shows "scan_step c fs (seeking p st d) = Inr ([], seeking (p + 1) (st + 1) d)"
  using assms
  by (simp add: scan_step_def seeking_def on_first_tag_def end_guard_def SIZE_def)

lemma scan_other:
  assumes "new_from_raw_data c p = Inr e"
    and "tag_number e \<noteq> NEXT_TAG" and "tag_number e \<noteq> LAST_TAG"
    and "p + 32 < length c"
  shows "scan_step c fs (scanning p st b es d)
     = Inr ([], scanning (p + 16) st b (es @ [e]) (d \<and> \<not> (fs \<noteq> [] \<and> matches fs e)))"
  using assms
  by (simp add: scan_step_def scanning_def on_entry_def on_tag_other end_guard_def
      SIZE_def Let_def)

lemma scan_other_at_end:
  assumes "new_from_raw_data c p = Inr e"
    and "tag_number e \<noteq> NEXT_TAG" and "tag_number e \<noteq> LAST_TAG"
    and "length c \<le> p + 32"
  shows "scan_step c fs (scanning p st b es d)
     = Inr ([(es @ [e], drop b c)],
            (scanning (p + 16) st b (es @ [e]) (d \<and> \<not> (fs \<noteq> [] \<and> matches fs e)))
              \<lparr> reached_end := True \<rparr>)"
  using assms
  by (simp add: scan_step_def scanning_def on_entry_def on_tag_other end_guard_def
      SIZE_def Let_def)

lemma scan_next:
  assumes "new_from_raw_data c p = Inr e" and "tag_number e = NEXT_TAG"
    and "b + data_offset e + 16 < length c"
  shows "scan_step c fs (scanning p st b es d)
     = Inr ((if d then [] else [(es @ [e], bytes_slice c b (b + data_offset e))]),
            seeking (b + data_offset e) st (fs \<noteq> [] \<and> \<not> matches fs e))"
  using assms
  by (simp add: scan_step_def scanning_def seeking_def on_entry_def on_tag_def
      end_guard_def SIZE_def TIME_TAG_def NEXT_TAG_def Let_def)

lemma scan_last:
  assumes "new_from_raw_data c p = Inr e" and "tag_number e = LAST_TAG"
  shows "scan_step c fs (scanning p st b es d)
     = Inr ((es @ [e], drop b c)
              # (if length c \<le> p + 32 then [(es @ [e], drop b c)] else []),
            (scanning (p + 16) st b (es @ [e]) (d \<and> \<not> (fs \<noteq> [] \<and> matches fs e)))
              \<lparr> reached_end := True \<rparr>)"
  using assms
  by (simp add: scan_step_def scanning_def on_entry_def on_tag_def end_guard_def
      SIZE_def TIME_TAG_def NEXT_TAG_def LAST_TAG_def RESERVED_TAG_LOW_END_def
      RESERVED_TAG_HIGH_END_def FILENAME_TAG_def FILEDATA_TAG_def Let_def)

lemma loop_step:
  assumes "\<not> reached_end s" and "scan_step c fs s = Inr (out, s')"
  shows "raw_buffers_loop (Suc n) c fs s
     = (out @ fst (raw_buffers_loop n c fs s'), snd (raw_buffers_loop n c fs s'))"
  using assms by (simp add: split_def Let_def)

lemma loop_done: "reached_end s \<Longrightarrow> raw_buffers_loop n c fs s = ([], Exhausted)"
  by (cases n) simp_all

subsection \<open>Scanning a synthetic file\<close>

lemma length_packed: "length (concat (map pack_entry es)) = 16 * length es"
  by (induction es) (simp_all add: length_pack_entry)

lemma length_seg_bytes:
  "length (seg_bytes sg) = 16 * (length (seg_data sg) + 2) + length (seg_payload sg)"
  by (simp add: seg_bytes_def seg_directory_def length_packed length_pack_entry)

lemma walk:
  assumes "plain_entries es'" and "16 < length post"
  shows "raw_buffers_loop (length es' + n) (pre @ concat (map pack_entry es') @ post) fs
           (scanning (length pre) st b es d)
       = raw_buffers_loop n (pre @ concat (map pack_entry es') @ post) fs
           (scanning (length pre + 16 * length es') st b (es @ es')
              (d \<and> \<not> (fs \<noteq> [] \<and> any_match fs es')))"
  using assms(1)
proof (induction es' arbitrary: pre es d)
  case Nil
  show ?case by simp
next
  case (Cons e es')
  let ?c = "pre @ concat (map pack_entry (e # es')) @ post"
  have c: "?c = pre @ pack_entry e @ (concat (map pack_entry es') @ post)" by simp
  have ok: "entry_ok e" "tag_number e \<noteq> NEXT_TAG" "tag_number e \<noteq> LAST_TAG"
    and rest: "plain_entries es'"
    using Cons.prems by (simp_all add: plain_entries_def)
  have parse: "new_from_raw_data ?c (length pre) = Inr e"
    unfolding c using ok(1) by (rule new_from_raw_data_pack)
  have room: "length pre + 32 < length ?c"
    using assms(2) by (simp add: length_pack_entry length_packed)
  have step: "scan_step ?c fs (scanning (length pre) st b es d)
      = Inr ([], scanning (length pre + 16) st b (es @ [e])
                   (d \<and> \<not> (fs \<noteq> [] \<and> matches fs e)))"
    using parse ok(2,3) room by (rule scan_other)
  have nr: "\<not> reached_end (scanning (length pre) st b es d)"
    by (simp add: scanning_def)
  have c2: "?c = (pre @ pack_entry e) @ concat (map pack_entry es') @ post" by simp
  have "raw_buffers_loop (length (e # es') + n) ?c fs (scanning (length pre) st b es d)
      = raw_buffers_loop (length es' + n) ?c fs
          (scanning (length pre + 16) st b (es @ [e])
             (d \<and> \<not> (fs \<noteq> [] \<and> matches fs e)))"
    using loop_step [OF nr step, of "length es' + n"] by simp
  also have "\<dots> = raw_buffers_loop n ?c fs
      (scanning (length (pre @ pack_entry e) + 16 * length es') st b ((es @ [e]) @ es')
         ((d \<and> \<not> (fs \<noteq> [] \<and> matches fs e)) \<and> \<not> (fs \<noteq> [] \<and> any_match fs es')))"
    unfolding c2
    using Cons.IH [OF rest, of "pre @ pack_entry e" "es @ [e]"
        "d \<and> \<not> (fs \<noteq> [] \<and> matches fs e)"]
    by (simp add: length_pack_entry)
  also have "\<dots> = raw_buffers_loop n ?c fs
      (scanning (length pre + 16 * length (e # es')) st b (es @ e # es')
         (d \<and> \<not> (fs \<noteq> [] \<and> any_match fs (e # es'))))"
  proof -
    have "((d \<and> \<not> (fs \<noteq> [] \<and> matches fs e)) \<and> \<not> (fs \<noteq> [] \<and> any_match fs es'))
        = (d \<and> \<not> (fs \<noteq> [] \<and> any_match fs (e # es')))"
      by auto
    then show ?thesis by (simp add: length_pack_entry add.assoc)
  qed
  finally show ?case .
qed

lemma seg_bytes_split:
  "seg_bytes sg = pack_entry (seg_time sg)
     @ concat (map pack_entry (seg_data sg)) @ pack_entry (seg_end sg) @ seg_payload sg"
  by (simp add: seg_bytes_def seg_directory_def)

lemma scan_next_segment:
  assumes sg: "next_segment sg" and post: "32 \<le> length post"
  shows "raw_buffers_loop (length (seg_data sg) + 3 + n) (pre @ seg_bytes sg @ post) fs
           (seeking (length pre) st d)
       = ((if d \<and> \<not> (fs \<noteq> [] \<and> any_match fs (seg_time sg # seg_data sg)) then []
           else [scanned sg])
          @ fst (raw_buffers_loop n (pre @ seg_bytes sg @ post) fs
                   (seeking (length pre + length (seg_bytes sg)) st
                      (fs \<noteq> [] \<and> \<not> matches fs (seg_end sg)))),
          snd (raw_buffers_loop n (pre @ seg_bytes sg @ post) fs
                   (seeking (length pre + length (seg_bytes sg)) st
                      (fs \<noteq> [] \<and> \<not> matches fs (seg_end sg)))))"
proof -
  let ?t = "seg_time sg" and ?ds = "seg_data sg" and ?nx = "seg_end sg"
  let ?c = "pre @ seg_bytes sg @ post"
  let ?d' = "d \<and> \<not> (fs \<noteq> [] \<and> any_match fs (?t # ?ds))"
  let ?p = "length pre + 16 * length (?t # ?ds)"
  from sg have ok: "entry_ok ?t" "time_signature ?t" "plain_entries ?ds" "entry_ok ?nx"
    "tag_number ?nx = NEXT_TAG" "data_offset ?nx = length (seg_bytes sg)"
    by (simp_all add: next_segment_def)
  have len: "length ?c = length pre + 16 * (length ?ds + 2) + length (seg_payload sg)
      + length post"
    by (simp add: length_seg_bytes)
  \<comment> \<open>the first entry is recognised\<close>
  have c1: "?c = pre @ pack_entry ?t
      @ (concat (map pack_entry ?ds) @ pack_entry ?nx @ seg_payload sg @ post)"
    by (simp add: seg_bytes_split)
  have "new_from_raw_data ?c (length pre) = Inr ?t"
    unfolding c1 using ok(1) by (rule new_from_raw_data_pack)
  moreover have "length pre + 16 < length ?c" using post by (simp add: length_seg_bytes)
  ultimately have step1: "scan_step ?c fs (seeking (length pre) st d)
      = Inr ([], scanning (length pre) st (length pre) [?t] d)"
    using ok(2) by (intro seek_match)
  \<comment> \<open>the time entry again and the data entries\<close>
  have plain: "plain_entries (?t # ?ds)"
    using ok(1,2,3)
    by (simp add: plain_entries_def time_signature_def TIME_TAG_def NEXT_TAG_def LAST_TAG_def)
  have c2: "?c = pre @ concat (map pack_entry (?t # ?ds))
      @ (pack_entry ?nx @ seg_payload sg @ post)"
    by (simp add: seg_bytes_split)
  have "16 < length (pack_entry ?nx @ seg_payload sg @ post)"
    using post by (auto simp: length_pack_entry)
  with plain have walk2: "raw_buffers_loop (length (?t # ?ds) + k) ?c fs
        (scanning (length pre) st (length pre) [?t] d)
      = raw_buffers_loop k ?c fs (scanning ?p st (length pre) ([?t] @ ?t # ?ds) ?d')" for k
    unfolding c2 by (rule walk)
  \<comment> \<open>the NEXT entry\<close>
  have c3: "?c = (pre @ concat (map pack_entry (?t # ?ds))) @ pack_entry ?nx
      @ (seg_payload sg @ post)"
    by (simp add: seg_bytes_split)
  have "new_from_raw_data ?c (length (pre @ concat (map pack_entry (?t # ?ds)))) = Inr ?nx"
    unfolding c3 using ok(4) by (rule new_from_raw_data_pack)
  then have parse3: "new_from_raw_data ?c ?p = Inr ?nx"
    by (simp add: length_packed length_pack_entry)
  have "length pre + data_offset ?nx + 16 < length ?c"
    using post by (simp add: ok(6))
  with parse3 ok(5) have step3: "scan_step ?c fs
        (scanning ?p st (length pre) ([?t] @ ?t # ?ds) ?d')
      = Inr ((if ?d' then []
              else [(([?t] @ ?t # ?ds) @ [?nx],
                     bytes_slice ?c (length pre) (length pre + data_offset ?nx))]),
             seeking (length pre + data_offset ?nx) st (fs \<noteq> [] \<and> \<not> matches fs ?nx))"
    by (intro scan_next)
  have sl: "bytes_slice ?c (length pre) (length pre + length (seg_bytes sg)) = seg_bytes sg"
    by (simp add: bytes_slice_def)
  have ents: "([?t] @ ?t # ?ds) @ [?nx] = ?t # seg_directory sg"
    by (simp add: seg_directory_def)
  have nr1: "\<not> reached_end (seeking (length pre) st d)" by (simp add: seeking_def)
  have nr3: "\<not> reached_end (scanning ?p st (length pre) ([?t] @ ?t # ?ds) ?d')"
    by (simp add: scanning_def)
  have "raw_buffers_loop (length ?ds + 3 + n) ?c fs (seeking (length pre) st d)
      = raw_buffers_loop (length (?t # ?ds) + Suc n) ?c fs
          (scanning (length pre) st (length pre) [?t] d)"
    using loop_step [OF nr1 step1, of "length (?t # ?ds) + Suc n"]
    by (simp add: numeral_3_eq_3)
  also have "\<dots> = raw_buffers_loop (Suc n) ?c fs
      (scanning ?p st (length pre) ([?t] @ ?t # ?ds) ?d')"
    by (rule walk2)
  finally show ?thesis
    unfolding loop_step [OF nr3 step3] ok(6) sl ents scanned_def by simp
qed

lemma scan_last_segment:
  assumes sg: "last_segment sg"
  shows "raw_buffers_loop (length (seg_data sg) + 3 + n) (pre @ seg_bytes sg) fs
           (seeking (length pre) st d)
       = (final_buffers sg, Exhausted)"
proof -
  let ?t = "seg_time sg" and ?ds = "seg_data sg" and ?la = "seg_end sg"
  let ?c = "pre @ seg_bytes sg"
  let ?p = "length pre + 16 * length (?t # ?ds)"
  from sg have ok: "entry_ok ?t" "time_signature ?t" "plain_entries ?ds" "entry_ok ?la"
    "tag_number ?la = LAST_TAG"
    by (simp_all add: last_segment_def)
  have len: "length ?c = length pre + 16 * (length ?ds + 2) + length (seg_payload sg)"
    by (simp add: length_seg_bytes)
  have c1: "?c = pre @ pack_entry ?t
      @ (concat (map pack_entry ?ds) @ pack_entry ?la @ seg_payload sg)"
    by (simp add: seg_bytes_split)
  have "new_from_raw_data ?c (length pre) = Inr ?t"
    unfolding c1 using ok(1) by (rule new_from_raw_data_pack)
  moreover have "length pre + 16 < length ?c" by (simp add: length_seg_bytes)
  ultimately have step1: "scan_step ?c fs (seeking (length pre) st d)
      = Inr ([], scanning (length pre) st (length pre) [?t] d)"
    using ok(2) by (intro seek_match)
  have nr1: "\<not> reached_end (seeking (length pre) st d)" by (simp add: seeking_def)
  have start: "raw_buffers_loop (Suc k) ?c fs (seeking (length pre) st d)
      = raw_buffers_loop k ?c fs (scanning (length pre) st (length pre) [?t] d)" for k
    using loop_step [OF nr1 step1, of k] by simp
  have plain: "plain_entries (?t # ?ds)"
    using ok(1,2,3)
    by (simp add: plain_entries_def time_signature_def TIME_TAG_def NEXT_TAG_def LAST_TAG_def)
  have drop_c: "drop (length pre) ?c = seg_bytes sg" by simp
  show ?thesis
  proof (cases "seg_payload sg = []")
    case True
    \<comment> \<open>the loop ends on the entry before LAST, which is never read\<close>
    obtain es' x where split: "?t # ?ds = es' @ [x]"
      by (metis append_butlast_last_id list.distinct(1))
    with plain have pe: "plain_entries es'" and px: "entry_ok x"
      "tag_number x \<noteq> NEXT_TAG" "tag_number x \<noteq> LAST_TAG"
      by (simp_all add: plain_entries_def)
    have le: "length es' = length ?ds"
      using arg_cong [OF split, of length] by simp
    have c2: "?c = pre @ concat (map pack_entry es') @ (pack_entry x @ pack_entry ?la)"
      using arg_cong [OF split, of "\<lambda>l. concat (map pack_entry l)"] True
      by (simp add: seg_bytes_split)
    have "16 < length (pack_entry x @ pack_entry ?la)" by (simp add: length_pack_entry)
    with pe have walk2: "raw_buffers_loop (length es' + k) ?c fs
          (scanning (length pre) st (length pre) [?t] d)
        = raw_buffers_loop k ?c fs
          (scanning (length pre + 16 * length es') st (length pre) ([?t] @ es')
             (d \<and> \<not> (fs \<noteq> [] \<and> any_match fs es')))" for k
      unfolding c2 by (rule walk)
    have c3: "?c = (pre @ concat (map pack_entry es')) @ pack_entry x @ pack_entry ?la"
      by (simp add: c2)
    have "new_from_raw_data ?c (length (pre @ concat (map pack_entry es'))) = Inr x"
      unfolding c3 using px(1) by (rule new_from_raw_data_pack)
    then have parse: "new_from_raw_data ?c (length pre + 16 * length es') = Inr x"
      by (simp add: length_packed)
    have "length ?c \<le> length pre + 16 * length es' + 32"
      using True by (simp add: length_seg_bytes le)
    with parse px(2,3) have step: "scan_step ?c fs
          (scanning (length pre + 16 * length es') st (length pre) ([?t] @ es')
             (d \<and> \<not> (fs \<noteq> [] \<and> any_match fs es')))
        = Inr ([(([?t] @ es') @ [x], drop (length pre) ?c)],
            (scanning (length pre + 16 * length es' + 16) st (length pre)
               (([?t] @ es') @ [x])
               ((d \<and> \<not> (fs \<noteq> [] \<and> any_match fs es'))
                 \<and> \<not> (fs \<noteq> [] \<and> matches fs x))) \<lparr> reached_end := True \<rparr>)"
      by (intro scan_other_at_end)
    have nr: "\<not> reached_end (scanning (length pre + 16 * length es') st (length pre)
        ([?t] @ es') (d \<and> \<not> (fs \<noteq> [] \<and> any_match fs es')))"
      by (simp add: scanning_def)
    have ents: "([?t] @ es') @ [x] = ?t # ?t # ?ds" using split by simp
    have "raw_buffers_loop (length ?ds + 3 + n) ?c fs (seeking (length pre) st d)
        = raw_buffers_loop (length es' + Suc (Suc n)) ?c fs
            (scanning (length pre) st (length pre) [?t] d)"
      using start [of "length es' + Suc (Suc n)"] by (simp add: le numeral_3_eq_3)
    also have "\<dots> = raw_buffers_loop (Suc (Suc n)) ?c fs
        (scanning (length pre + 16 * length es') st (length pre) ([?t] @ es')
           (d \<and> \<not> (fs \<noteq> [] \<and> any_match fs es')))"
      by (rule walk2)
    finally show ?thesis
      unfolding loop_step [OF nr step] ents drop_c
      using True by (simp add: loop_done final_buffers_def)
  next
    case False
    have c2: "?c = pre @ concat (map pack_entry (?t # ?ds))
        @ (pack_entry ?la @ seg_payload sg)"
      by (simp add: seg_bytes_split)
    have "16 < length (pack_entry ?la @ seg_payload sg)"
      using False by (simp add: length_pack_entry)
    with plain have walk2: "raw_buffers_loop (length (?t # ?ds) + k) ?c fs
          (scanning (length pre) st (length pre) [?t] d)
        = raw_buffers_loop k ?c fs
          (scanning ?p st (length pre) ([?t] @ ?t # ?ds)
             (d \<and> \<not> (fs \<noteq> [] \<and> any_match fs (?t # ?ds))))" for k
      unfolding c2 by (rule walk)
    have c3: "?c = (pre @ concat (map pack_entry (?t # ?ds))) @ pack_entry ?la
        @ seg_payload sg"
      by (simp add: seg_bytes_split)
    have "new_from_raw_data ?c (length (pre @ concat (map pack_entry (?t # ?ds)))) = Inr ?la"
      unfolding c3 using ok(4) by (rule new_from_raw_data_pack)
    then have parse: "new_from_raw_data ?c ?p = Inr ?la"
      by (simp add: length_packed length_pack_entry)
    note step = scan_last [OF parse ok(5), of fs st "length pre" "[?t] @ ?t # ?ds"
        "d \<and> \<not> (fs \<noteq> [] \<and> any_match fs (?t # ?ds))"]
    have nr: "\<not> reached_end (scanning ?p st (length pre) ([?t] @ ?t # ?ds)
        (d \<and> \<not> (fs \<noteq> [] \<and> any_match fs (?t # ?ds))))"
      by (simp add: scanning_def)
    have ents: "([?t] @ ?t # ?ds) @ [?la] = ?t # seg_directory sg"
      by (simp add: seg_directory_def)
    have small: "(length ?c \<le> ?p + 32) = (length (seg_payload sg) \<le> 16)"
      by (simp add: length_seg_bytes)
    have "raw_buffers_loop (length ?ds + 3 + n) ?c fs (seeking (length pre) st d)
        = raw_buffers_loop (length (?t # ?ds) + Suc n) ?c fs
            (scanning (length pre) st (length pre) [?t] d)"
      using start [of "length (?t # ?ds) + Suc n"] by (simp add: numeral_3_eq_3)
    also have "\<dots> = raw_buffers_loop (Suc n) ?c fs
        (scanning ?p st (length pre) ([?t] @ ?t # ?ds)
           (d \<and> \<not> (fs \<noteq> [] \<and> any_match fs (?t # ?ds))))"
      by (rule walk2)
    finally show ?thesis
      unfolding loop_step [OF nr step] ents drop_c small
      using False by (simp add: loop_done final_buffers_def scanned_def)
  qed
qed

lemma length_synthetic_file: "32 \<le> length (synthetic_file nexts fin)"
  by (simp add: synthetic_file_def length_seg_bytes)

lemma scan_synthetic:
  assumes "list_all next_segment nexts" and "last_segment fin"
  shows "raw_buffers_loop (scan_fuel nexts fin + n) (pre @ synthetic_file nexts fin) fs
           (seeking (length pre) st d)
       = (kept_buffers fs d nexts @ final_buffers fin, Exhausted)"
  using assms(1)
proof (induction nexts arbitrary: pre d)
  case Nil
  show ?case
    using scan_last_segment [OF assms(2), of n pre fs st d]
    by (simp add: scan_fuel_def synthetic_file_def)
next
  case (Cons sg sgs)
  from Cons.prems have sg: "next_segment sg" and sgs: "list_all next_segment sgs"
    by simp_all
  let ?c = "pre @ synthetic_file (sg # sgs) fin"
  have c: "?c = pre @ seg_bytes sg @ synthetic_file sgs fin"
    by (simp add: synthetic_file_def)
  have c': "?c = (pre @ seg_bytes sg) @ synthetic_file sgs fin"
    by (simp add: synthetic_file_def)
  have fuel: "scan_fuel (sg # sgs) fin + n = length (seg_data sg) + 3 + (scan_fuel sgs fin + n)"
    by (simp add: scan_fuel_def)
  have rest: "raw_buffers_loop (scan_fuel sgs fin + n)
        (pre @ seg_bytes sg @ synthetic_file sgs fin) fs
        (seeking (length pre + length (seg_bytes sg)) st
           (fs \<noteq> [] \<and> \<not> matches fs (seg_end sg)))
      = (kept_buffers fs (fs \<noteq> [] \<and> \<not> matches fs (seg_end sg)) sgs @ final_buffers fin,
         Exhausted)"
    using Cons.IH [OF sgs, of "pre @ seg_bytes sg" "fs \<noteq> [] \<and> \<not> matches fs (seg_end sg)"]
    by simp
  have post: "32 \<le> length (synthetic_file sgs fin)" by (rule length_synthetic_file)
  note seg = scan_next_segment [OF sg post, where n = "scan_fuel sgs fin + n"
      and pre = pre and fs = fs and st = st and d = d]
  show ?case
    unfolding fuel c seg rest by simp
qed

lemma initial_state_seeking: "initial_state fs = seeking 0 0 (fs \<noteq> [])"
  by (simp add: initial_state_def seeking_def)

lemma raw_buffers_synthetic:
  assumes "list_all hasattr_entry (map fst fs)"
    and "list_all next_segment nexts" and "last_segment fin"
  shows "raw_buffers (scan_fuel nexts fin + n) (synthetic_file nexts fin) fs
       = ([], kept_buffers fs (fs \<noteq> []) nexts @ final_buffers fin, Exhausted)"
  using scan_synthetic [OF assms(2,3), of n "[]" fs 0 "fs \<noteq> []"]
  by (simp add: raw_buffers_def remove_invalid_valid [OF assms(1)] initial_state_seeking)

lemma kept_buffers_no_filter: "kept_buffers [] d nexts = map scanned nexts" if "\<not> d"
  using that by (induction nexts arbitrary: d) simp_all

lemma raw_buffers_synthetic_no_filter:
  assumes "list_all next_segment nexts" and "last_segment fin"
  shows "raw_buffers (scan_fuel nexts fin + n) (synthetic_file nexts fin) []
       = ([], map scanned nexts @ final_buffers fin, Exhausted)"
  using raw_buffers_synthetic [OF _ assms, of "[]" n]
  by (simp add: kept_buffers_no_filter)

subsection \<open>When the scan ends\<close>

text \<open>
  The scan ends (exhausted or with an exception) on every file in which no position
  holds a NEXT entry with data offset 0, for every filter.
\<close>

lemma scan_step_progress:
  assumes nz: "\<forall>p e. new_from_raw_data c p = Inr e \<longrightarrow> tag_number e = NEXT_TAG
      \<longrightarrow> 0 < data_offset e"
    and inv: "dir_base s \<le> cursor s"
    and step: "scan_step c fs s = Inr (out, s')"
  shows "reached_end s' \<or> reached_end s
       \<or> ((s', s) \<in> scan_order c \<and> dir_base s' \<le> cursor s')"
proof -
  from step obtain e where parse: "new_from_raw_data c (cursor s) = Inr e"
    by (auto simp: scan_step_def split: sum.splits)
  then have room: "cursor s + 16 \<le> length c"
    by (auto simp: new_from_raw_data_def split: if_splits)
  have off: "0 < data_offset e" if "tag_number e = NEXT_TAG"
    using nz parse that by blast
  show ?thesis
  proof (cases "first_tag s")
    case True
    with step parse inv room show ?thesis
      by (cases s)
        (auto simp: scan_step_def on_first_tag_def end_guard_def SIZE_def scan_order_def
          Let_def split: if_splits)
  next
    case nft: False
    show ?thesis
    proof (cases "tag_number e = NEXT_TAG")
      case True
      with step parse inv room off nft show ?thesis
        by (cases s)
          (auto simp: scan_step_def on_entry_def on_tag_def end_guard_def SIZE_def
            scan_order_def Let_def TIME_TAG_def NEXT_TAG_def split: if_splits)
    next
      case nn: False
      show ?thesis
      proof (cases "tag_number e = LAST_TAG")
        case True
        with step parse nft show ?thesis
          by (cases s)
            (auto simp: scan_step_def on_entry_def on_tag_def end_guard_def SIZE_def
              Let_def TIME_TAG_def NEXT_TAG_def LAST_TAG_def RESERVED_TAG_LOW_END_def
              RESERVED_TAG_HIGH_END_def FILENAME_TAG_def FILEDATA_TAG_def
              split: if_splits)
      next
        case nl: False
        from step parse inv room nft nn nl show ?thesis
          by (cases s)
            (auto simp: scan_step_def on_entry_def on_tag_other [OF nn nl] end_guard_def
              SIZE_def scan_order_def Let_def split: if_splits)
      qed
    qed
  qed
qed

lemma scan_ends:
  assumes nz: "\<forall>p e. new_from_raw_data c p = Inr e \<longrightarrow> tag_number e = NEXT_TAG
      \<longrightarrow> 0 < data_offset e"
    and inv: "dir_base s \<le> cursor s"
  shows "\<exists>n. snd (raw_buffers_loop n c fs s) \<noteq> OutOfFuel"
proof -
  have wf: "wf (scan_order c)" by (simp add: scan_order_def)
  from inv show ?thesis
  proof (induction s rule: wf_induct_rule [OF wf])
  case (1 s)
  show ?case
  proof (cases "reached_end s")
    case True
    then have "snd (raw_buffers_loop 0 c fs s) \<noteq> OutOfFuel" by simp
    then show ?thesis ..
  next
    case False
    show ?thesis
    proof (cases "scan_step c fs s")
      case (Inl err)
      with False have "snd (raw_buffers_loop (Suc 0) c fs s) \<noteq> OutOfFuel" by simp
      then show ?thesis ..
    next
      case (Inr r)
      obtain out s' where r: "r = (out, s')" by (cases r)
      from scan_step_progress [OF nz "1.prems" Inr [unfolded r]] False
      consider "reached_end s'" | "(s', s) \<in> scan_order c" "dir_base s' \<le> cursor s'"
        by blast
      then obtain n where n: "snd (raw_buffers_loop n c fs s') \<noteq> OutOfFuel"
      proof cases
        case 1
        then have "snd (raw_buffers_loop 0 c fs s') \<noteq> OutOfFuel" by simp
        then show ?thesis by (rule that)
      next
        case 2
        from "1.IH" [OF 2] show ?thesis using that by blast
      qed
      have "snd (raw_buffers_loop (Suc n) c fs s) \<noteq> OutOfFuel"
        using n unfolding loop_step [OF False Inr [unfolded r]] by simp
      then show ?thesis ..
    qed
  qed
  qed
qed

lemma raw_buffers_ends:
  assumes "\<forall>p e. new_from_raw_data c p = Inr e \<longrightarrow> tag_number e = NEXT_TAG
      \<longrightarrow> 0 < data_offset e"
  shows "\<exists>n. snd (snd (raw_buffers n c filters)) \<noteq> OutOfFuel"
proof (cases "remove_invalid filters")
  case (Pair ws res)
  show ?thesis
  proof (cases res)
    case (Inl err)
    with Pair show ?thesis by (simp add: raw_buffers_def)
  next
    case (Inr fs)
    have "dir_base (initial_state fs) \<le> cursor (initial_state fs)"
      by (simp add: initial_state_def)
    from scan_ends [OF assms this, where fs = fs] obtain n
      where "snd (raw_buffers_loop n c fs (initial_state fs)) \<noteq> OutOfFuel" by blast
    then have "snd (snd (raw_buffers n c filters)) \<noteq> OutOfFuel"
      using Pair Inr by (simp add: raw_buffers_def split: prod.splits)
    then show ?thesis ..
  qed
qed

subsection \<open>Scans of the example files\<close>

lemma replicate_numeral: "replicate (numeral k) x = x # replicate (pred_numeral k) x"
  by (simp add: numeral_eq_Suc)

lemmas file_bytes = time_entry_bytes_def next_entry_bytes_def last_entry_bytes_def
  replicate_numeral

lemmas entry_values = time_entry_def next_entry_def last_entry_def misaligned_entry_def

lemmas parse_defs = new_from_raw_data_def u16_at_def u8_at_def

lemma resync_parse:
  "new_from_raw_data resync_file 0 = Inr time_entry"
  "new_from_raw_data resync_file 16 = Inr (next_entry 32)"
  "new_from_raw_data resync_file 32 = Inr misaligned_entry"
  "new_from_raw_data resync_file 33 = Inr time_entry"
  "new_from_raw_data resync_file 49 = Inr last_entry"
  "length resync_file = 85"
  by (simp_all add: resync_file_def file_bytes parse_defs entry_values)

lemma entry_facts:
  "time_signature time_entry" "\<not> time_signature misaligned_entry"
  "tag_number time_entry \<noteq> NEXT_TAG" "tag_number time_entry \<noteq> LAST_TAG"
  "tag_number (next_entry off) = NEXT_TAG" "data_offset (next_entry off) = off"
  "tag_number last_entry = LAST_TAG"
  by (simp_all add: entry_values time_signature_def TIME_TAG_def NEXT_TAG_def LAST_TAG_def)

lemma resync_steps:
  "scan_step resync_file [] (seeking 0 0 False) = Inr ([], scanning 0 0 0 [time_entry] False)"
  "scan_step resync_file [] (scanning 0 0 0 [time_entry] False)
     = Inr ([], scanning 16 0 0 [time_entry, time_entry] False)"
  "scan_step resync_file [] (scanning 16 0 0 [time_entry, time_entry] False)
     = Inr ([([time_entry, time_entry, next_entry 32], take 32 resync_file)],
            seeking 32 0 False)"
  "scan_step resync_file [] (seeking 32 0 False) = Inr ([], seeking 33 (Suc 0) False)"
  "scan_step resync_file [] (seeking 33 (Suc 0) False)
     = Inr ([], scanning 33 (Suc 0) 33 [time_entry] False)"
  "scan_step resync_file [] (scanning 33 (Suc 0) 33 [time_entry] False)
     = Inr ([], scanning 49 (Suc 0) 33 [time_entry, time_entry] False)"
  "scan_step resync_file [] (scanning 49 (Suc 0) 33 [time_entry, time_entry] False)
     = Inr ([([time_entry, time_entry, last_entry], drop 33 resync_file)],
            (scanning 65 (Suc 0) 33 [time_entry, time_entry, last_entry] False)
              \<lparr> reached_end := True \<rparr>)"
proof -
  show "scan_step resync_file [] (seeking 0 0 False)
      = Inr ([], scanning 0 0 0 [time_entry] False)"
    by (rule seek_match [OF resync_parse(1) entry_facts(1)]) (simp add: resync_parse)
  show "scan_step resync_file [] (scanning 0 0 0 [time_entry] False)
      = Inr ([], scanning 16 0 0 [time_entry, time_entry] False)"
    using scan_other [OF resync_parse(1) entry_facts(3,4), of "[]" 0 0 "[time_entry]" False]
    by (simp add: resync_parse)
  show "scan_step resync_file [] (scanning 16 0 0 [time_entry, time_entry] False)
      = Inr ([([time_entry, time_entry, next_entry 32], take 32 resync_file)],
             seeking 32 0 False)"
    using scan_next [OF resync_parse(2) entry_facts(5), of 0 "[]" 0
        "[time_entry, time_entry]" False]
    by (simp add: resync_parse entry_facts bytes_slice_def)
  show "scan_step resync_file [] (seeking 32 0 False) = Inr ([], seeking 33 (Suc 0) False)"
    using seek_mismatch [OF resync_parse(3) entry_facts(2), of "[]" 0 False]
    by (simp add: resync_parse)
  show "scan_step resync_file [] (seeking 33 (Suc 0) False)
      = Inr ([], scanning 33 (Suc 0) 33 [time_entry] False)"
    by (rule seek_match [OF resync_parse(4) entry_facts(1)]) (simp add: resync_parse)
  show "scan_step resync_file [] (scanning 33 (Suc 0) 33 [time_entry] False)
      = Inr ([], scanning 49 (Suc 0) 33 [time_entry, time_entry] False)"
    using scan_other [OF resync_parse(4) entry_facts(3,4), of "[]" "Suc 0" 33 "[time_entry]" False]
    by (simp add: resync_parse)
  show "scan_step resync_file [] (scanning 49 (Suc 0) 33 [time_entry, time_entry] False)
      = Inr ([([time_entry, time_entry, last_entry], drop 33 resync_file)],
             (scanning 65 (Suc 0) 33 [time_entry, time_entry, last_entry] False)
               \<lparr> reached_end := True \<rparr>)"
    using scan_last [OF resync_parse(5) entry_facts(7), of "[]" "Suc 0" 33
        "[time_entry, time_entry]" False]
    by (simp add: resync_parse)
qed

lemma state_flags:
  "\<not> reached_end (seeking p st d)" "\<not> reached_end (scanning p st b es d)"
  "reached_end (s \<lparr> reached_end := True \<rparr>)"
  "first_tag (seeking p st d)" "\<not> first_tag (scanning p st b es d)"
  by (simp_all add: seeking_def scanning_def)

lemma raw_buffers_no_filter:
  "raw_buffers n c [] = ([], raw_buffers_loop n c [] (seeking 0 0 False))"
  by (simp add: raw_buffers_def remove_invalid_def initial_state_seeking)

text \<open>
  Claim C1 as stated fails on \<open>resync_file\<close>. Its first buffer ends with a NEXT
  entry whose data offset is 32. The entry at offset 32 is not taken as the first
  entry of the next buffer: the second buffer starts at offset 33, where the
  byte-by-byte search finds the time entry, and its entries are that time entry
  (twice) and the LAST entry.
\<close>

theorem resync_after_next_counterexample:
  "raw_buffers 7 resync_file []
     = ([], [([time_entry, time_entry, next_entry 32], take 32 resync_file),
             ([time_entry, time_entry, last_entry], drop 33 resync_file)], Exhausted)
   \<and> new_from_raw_data resync_file 32 = Inr misaligned_entry
   \<and> misaligned_entry \<noteq> time_entry
   \<and> drop 33 resync_file \<noteq> drop 32 resync_file"
proof -
  have "raw_buffers_loop (Suc (Suc (Suc (Suc (Suc (Suc (Suc 0))))))) resync_file []
      (seeking 0 0 False)
    = ([([time_entry, time_entry, next_entry 32], take 32 resync_file),
        ([time_entry, time_entry, last_entry], drop 33 resync_file)], Exhausted)"
    by (simp add: resync_steps state_flags)
  moreover have "(7::nat) = Suc (Suc (Suc (Suc (Suc (Suc (Suc 0))))))" by simp
  ultimately have "raw_buffers 7 resync_file []
     = ([], [([time_entry, time_entry, next_entry 32], take 32 resync_file),
             ([time_entry, time_entry, last_entry], drop 33 resync_file)], Exhausted)"
    by (simp only: raw_buffers_no_filter)
  moreover have "drop 33 resync_file \<noteq> drop 32 resync_file"
    by (simp add: resync_file_def file_bytes)
  ultimately show ?thesis
    by (simp add: resync_parse entry_values)
qed

lemma scanning_eq:
  assumes "\<not> first_tag s" and "\<not> reached_end s"
  shows "s = scanning (cursor s) (search_time s) (dir_base s) (dir_entries s) (drop_buffer s)"
  using assms by (cases s) (simp add: scanning_def)

text \<open>
  Claim C1, as amended. When the scanner reads a NEXT entry (and at least 17 bytes
  follow the new base), it yields the buffer unless it is dropped and goes back to
  the search for a first entry: \<open>first_tag\<close> is set, the entry list is empty, cursor
  and buffer base are the old base plus the data offset of the NEXT entry. The next
  iteration tests the entry at the new base against the time signature, as for the
  first buffer of the file: if it matches, it becomes the first entry of the buffer
  and reading goes on from there; if not, cursor and base move on by one byte.
\<close>

theorem next_restarts_search:
  assumes "\<not> first_tag s" and "\<not> reached_end s"
    and "new_from_raw_data c (cursor s) = Inr e" and "tag_number e = NEXT_TAG"
    and "dir_base s + data_offset e + 17 < length c"
    and "new_from_raw_data c (dir_base s + data_offset e) = Inr e2"
  shows "scan_step c fs s
       = Inr ((if drop_buffer s then []
               else [(dir_entries s @ [e],
                      bytes_slice c (dir_base s) (dir_base s + data_offset e))]),
              seeking (dir_base s + data_offset e) (search_time s)
                (fs \<noteq> [] \<and> \<not> matches fs e))
     \<and> first_tag (seeking (dir_base s + data_offset e) (search_time s)
                    (fs \<noteq> [] \<and> \<not> matches fs e))
     \<and> scan_step c fs (seeking (dir_base s + data_offset e) (search_time s)
                         (fs \<noteq> [] \<and> \<not> matches fs e))
       = Inr ([], if time_signature e2
                  then scanning (dir_base s + data_offset e) (search_time s)
                         (dir_base s + data_offset e) [e2] (fs \<noteq> [] \<and> \<not> matches fs e)
                  else seeking (dir_base s + data_offset e + 1) (search_time s + 1)
                         (fs \<noteq> [] \<and> \<not> matches fs e))"
proof (intro conjI)
  have room: "dir_base s + data_offset e + 16 < length c" using assms(5) by simp
  show "scan_step c fs s
       = Inr ((if drop_buffer s then []
               else [(dir_entries s @ [e],
                      bytes_slice c (dir_base s) (dir_base s + data_offset e))]),
              seeking (dir_base s + data_offset e) (search_time s)
                (fs \<noteq> [] \<and> \<not> matches fs e))"
    using scan_next [OF assms(3,4) room, of fs "search_time s" "dir_entries s"
        "drop_buffer s"]
    by (simp add: scanning_eq [OF assms(1,2), symmetric])
  show "first_tag (seeking (dir_base s + data_offset e) (search_time s)
                    (fs \<noteq> [] \<and> \<not> matches fs e))"
    by (simp add: seeking_def)
  show "scan_step c fs (seeking (dir_base s + data_offset e) (search_time s)
                         (fs \<noteq> [] \<and> \<not> matches fs e))
       = Inr ([], if time_signature e2
                  then scanning (dir_base s + data_offset e) (search_time s)
                         (dir_base s + data_offset e) [e2] (fs \<noteq> [] \<and> \<not> matches fs e)
                  else seeking (dir_base s + data_offset e + 1) (search_time s + 1)
                         (fs \<noteq> [] \<and> \<not> matches fs e))"
    using seek_match [OF assms(6) _ room] seek_mismatch [OF assms(6) _ assms(5)]
    by (cases "time_signature e2") simp_all
qed

text \<open>
  The theorem on \<open>resync_file\<close>, at the NEXT entry of its first buffer: the entry
  at the new base 32 does not match, and the search moves to offset 33.
\<close>

theorem next_restarts_search_witness:
  "scan_step resync_file [] (scanning 16 0 0 [time_entry, time_entry] False)
     = Inr ([([time_entry, time_entry, next_entry 32], take 32 resync_file)],
            seeking 32 0 False)
   \<and> scan_step resync_file [] (seeking 32 0 False) = Inr ([], seeking 33 1 False)"
proof -
  let ?s = "scanning 16 0 0 [time_entry, time_entry] False"
  have f: "\<not> first_tag ?s" "\<not> reached_end ?s"
    and v: "cursor ?s = 16" "dir_base ?s = 0" "search_time ?s = 0"
      "dir_entries ?s = [time_entry, time_entry]" "\<not> drop_buffer ?s"
    by (simp_all add: scanning_def)
  have p: "new_from_raw_data resync_file (cursor ?s) = Inr (next_entry 32)"
    by (simp add: v resync_parse)
  have r: "dir_base ?s + data_offset (next_entry 32) + 17 < length resync_file"
    by (simp add: v entry_facts resync_parse)
  have q: "new_from_raw_data resync_file (dir_base ?s + data_offset (next_entry 32))
      = Inr misaligned_entry"
    by (simp add: v entry_facts resync_parse)
  from next_restarts_search [OF f p entry_facts(5) r q, of "[]"]
  show ?thesis
    by (simp add: v entry_facts bytes_slice_def)
qed

subsection \<open>The decoder under a filter\<close>

lemma read_matching_no_match:
  "\<not> matches fs e \<Longrightarrow> read_matching fs e raw b discard ws = (ws, Inr (b, discard))"
proof (induction fs)
  case Nil
  show ?case by simp
next
  case (Cons f fs)
  obtain a vs where f: "f = (a, vs)" by (cases f)
  from Cons.prems have "\<not> (case getattr_entry e a of Some v \<Rightarrow> v \<in> set vs | None \<Rightarrow> False)"
    and "\<not> matches fs e"
    by (auto simp: f split: option.splits if_splits)
  with Cons.IH show ?case by (simp add: f)
qed

declare decode_entries.simps [simp del]

lemma decode_skipped:
  assumes "fs \<noteq> []" and "skipped fs secondary e"
  shows "decode_entries fs secondary raw (e # es) b discard ws
       = decode_entries fs secondary raw es b discard ws"
proof -
  from assms(2) have o: "ordinary secondary e" and m: "\<not> matches fs e"
    by (simp_all add: skipped_def)
  from o have t: "tag_number e \<noteq> TIME_TAG" "tag_number e \<noteq> NEXT_TAG"
    "\<not> (RESERVED_TAG_LOW_END \<le> tag_number e \<and> tag_number e \<le> RESERVED_TAG_HIGH_END)"
    "\<not> (tag_number e = FILENAME_TAG \<or> tag_number e = FILEDATA_TAG)"
    "\<not> (tag_number e = COMMAND_TAG \<or> tag_number e = ERROR_TAG \<or> tag_number e = SAME_TAG)"
    "tag_number e \<noteq> LAST_TAG" "tag_number e \<notin> set secondary"
    by (simp_all add: ordinary_def)
  show ?thesis
    by (simp only: decode_entries.simps(2) t assms(1) if_False if_True not_False_eq_True
        read_matching_no_match [OF m] prod.case sum.case)
qed

lemma decode_cons_cong:
  assumes "\<And>b discard ws. decode_entries fs secondary raw es b discard ws
      = decode_entries fs secondary raw es' b discard ws"
  shows "decode_entries fs secondary raw (e # es) b discard ws
       = decode_entries fs secondary raw (e # es') b discard ws"
  by (simp only: decode_entries.simps(2) assms)

lemma decode_entries_filter:
  assumes "fs \<noteq> []"
  shows "decode_entries fs secondary raw es b discard ws
       = decode_entries fs secondary raw
           (filter (\<lambda>e. \<not> skipped fs secondary e) es) b discard ws"
proof (induction es arbitrary: b discard ws)
  case Nil
  show ?case by simp
next
  case (Cons e es)
  show ?case
  proof (cases "skipped fs secondary e")
    case True
    then show ?thesis
      using Cons.IH by (simp add: decode_skipped [OF assms True])
  next
    case False
    then have f: "filter (\<lambda>e. \<not> skipped fs secondary e) (e # es)
        = e # filter (\<lambda>e. \<not> skipped fs secondary e) es"
      by simp
    show ?thesis
      unfolding f by (rule decode_cons_cong) (rule Cons.IH)
  qed
qed

lemma dom_add_dataset:
  "dom (datasets_by_tag_number (add_dataset b e d))
     = insert (tag_number e) (dom (datasets_by_tag_number b))"
  by (simp add: by_tag_add_dataset)

lemma read_matching_dom_upper:
  assumes "read_matching fs e raw b discard ws = (ws', Inr (b1, d1))"
  shows "dom (datasets_by_tag_number b1) \<subseteq> insert (tag_number e) (dom (datasets_by_tag_number b))"
  using assms
proof (induction fs arbitrary: b discard ws)
  case Nil
  then show ?case by auto
next
  case (Cons f fs)
  obtain a vs where f: "f = (a, vs)" by (cases f)
  show ?case
    using Cons.prems
    by (auto simp: f dom_add_dataset split: if_splits prod.splits sum.splits option.splits
        dest!: Cons.IH) blast+
qed

lemma decode_entries_dom_upper_filtered:
  assumes "fs \<noteq> []"
    and "decode_entries fs secondary raw es b discard ws = (act, b', ws')"
  shows "dom (datasets_by_tag_number b')
       \<subseteq> dom (datasets_by_tag_number b) \<union> tag_number ` set es"
  using assms(2)
proof (induction es arbitrary: b discard ws)
  case Nil
  then show ?case by (simp add: decode_entries.simps)
next
  case (Cons x es)
  show ?case
    using Cons.prems assms(1)
    by (auto simp: decode_entries.simps(2) dom_add_dataset
        split: if_splits sum.splits prod.splits
        dest!: Cons.IH read_matching_dom_upper) blast+
qed

lemma decode_entries_only_unskipped:
  assumes "fs \<noteq> []"
    and "decode_entries fs secondary raw es b discard ws = (act, b', ws')"
  shows "dom (datasets_by_tag_number b')
       \<subseteq> dom (datasets_by_tag_number b)
         \<union> tag_number ` set (filter (\<lambda>e. \<not> skipped fs secondary e) es)"
  using decode_entries_dom_upper_filtered [OF assms(1),
      of secondary raw "filter (\<lambda>e. \<not> skipped fs secondary e) es" b discard ws act b' ws']
    assms(2)
  by (simp only: decode_entries_filter [OF assms(1), symmetric])

lemma read_matching_value:
  assumes "read_matching fs e raw b discard ws = (ws', Inr (b1, d1))"
  shows "map_option Inr (datasets_by_tag_number b1 n)
       = (if matches fs e \<and> tag_number e = n then Some (snd (read_dataset e raw))
          else map_option Inr (datasets_by_tag_number b n))"
  using assms
proof (induction fs arbitrary: b discard ws)
  case Nil
  then show ?case by simp
next
  case (Cons f fs)
  obtain a vs where f: "f = (a, vs)" by (cases f)
  show ?case
  proof (cases "case getattr_entry e a of Some v \<Rightarrow> v \<in> set vs | None \<Rightarrow> False")
    case True
    then have m: "matches (f # fs) e" by (auto simp: f split: option.splits)
    from Cons.prems True obtain w d where r: "read_dataset e raw = (w, Inr d)"
      and rest: "read_matching fs e raw (add_dataset b e d) False (ws @ w) = (ws', Inr (b1, d1))"
      by (auto simp: f split: prod.splits sum.splits)
    from Cons.IH [OF rest] show ?thesis
      by (simp add: m r by_tag_add_dataset)
  next
    case False
    then have m: "matches (f # fs) e = matches fs e"
      by (auto simp: f split: option.splits)
    from Cons.prems False have "read_matching fs e raw b discard ws = (ws', Inr (b1, d1))"
      by (simp add: f)
    from Cons.IH [OF this] show ?thesis by (simp add: m)
  qed
qed

lemma decode_entries_values:
  assumes "fs \<noteq> []" and "ordinary secondary e"
    and "decode_entries fs secondary raw es b discard ws = (Yield, b', ws')"
  shows "map_option Inr (datasets_by_tag_number b' (tag_number e))
       = (if accepted_reads fs raw (tag_number e) es = []
          then map_option Inr (datasets_by_tag_number b (tag_number e))
          else Some (last (accepted_reads fs raw (tag_number e) es)))"
  using assms(3)
proof (induction es arbitrary: b discard ws)
  case Nil
  then show ?case by (simp add: decode_entries.simps)
next
  case (Cons x es)
  from assms(2) have t: "tag_number e \<noteq> TIME_TAG" "tag_number e \<noteq> NEXT_TAG"
    "\<not> (RESERVED_TAG_LOW_END \<le> tag_number e \<and> tag_number e \<le> RESERVED_TAG_HIGH_END)"
    "tag_number e \<noteq> FILENAME_TAG" "tag_number e \<noteq> FILEDATA_TAG"
    "tag_number e \<noteq> COMMAND_TAG" "tag_number e \<noteq> ERROR_TAG" "tag_number e \<noteq> SAME_TAG"
    "tag_number e \<noteq> LAST_TAG" "tag_number e \<notin> set secondary"
    by (simp_all add: ordinary_def)
  have tn: "TIME_TAG \<noteq> NEXT_TAG" by (simp add: TIME_TAG_def NEXT_TAG_def)
  show ?case
    using Cons.prems assms(1) t tn
    by (auto simp: decode_entries.simps(2) by_tag_add_dataset accepted_reads_def
        split: if_splits sum.splits prod.splits
        dest!: Cons.IH read_matching_value [where n = "tag_number e"])
qed

subsection \<open>The filter on synthetic files\<close>

lemma kept_buffers_filter:
  assumes "fs \<noteq> []" and "list_all (\<lambda>sg. \<not> matches fs (seg_end sg)) nexts"
  shows "kept_buffers fs True nexts
       = map scanned (filter (\<lambda>sg. any_match fs (seg_time sg # seg_data sg)) nexts)"
  using assms(2)
proof (induction nexts)
  case Nil
  show ?case by simp
next
  case (Cons sg sgs)
  then show ?case using assms(1) by simp
qed

lemma iter_buffers_valid:
  assumes "list_all hasattr_entry (map fst fs)"
  shows "iter_buffers n c secondary fs
       = iter_raw fs secondary (fst (snd (raw_buffers n c fs))) (snd (snd (raw_buffers n c fs)))"
  by (simp add: iter_buffers_def raw_buffers_def remove_invalid_valid [OF assms]
      split: prod.splits)

text \<open>
  Claim C5, as amended. Take a non-empty filter with valid attribute names and a
  synthetic file none of whose NEXT entries the filter accepts. Then the scanner
  drops the buffers that end with NEXT by default: it yields such a buffer exactly
  when the filter accepts its time entry or one of its data entries, and it always
  yields the last buffer; the decoder \<open>iter_buffers\<close> processes exactly the buffers
  the scanner yields, so nothing of a dropped buffer is decoded. For any raw buffer,
  the decoder under the filter stores datasets only for entries that are not
  skipped: an ordinary entry that the filter does not accept is never decoded, also
  in a buffer that is kept. When the decoder yields the buffer, the dataset it holds
  for the tag number of an ordinary entry is the value that \<open>_read_dataset\<close> returns
  for the last entry before the NEXT entry that has this tag number and that the
  filter accepts (so every such entry has been decoded without error), and it holds
  no dataset for this tag number when the filter accepts no such entry.
\<close>

theorem filter_selects_buffers_and_records:
  assumes "fs \<noteq> []" and "list_all hasattr_entry (map fst fs)"
    and "list_all next_segment nexts" and "last_segment fin"
    and "list_all (\<lambda>sg. \<not> matches fs (seg_end sg)) nexts"
  shows "raw_buffers (scan_fuel nexts fin + n) (synthetic_file nexts fin) fs
         = ([], map scanned (filter (\<lambda>sg. any_match fs (seg_time sg # seg_data sg)) nexts)
                @ final_buffers fin, Exhausted)
       \<and> iter_buffers (scan_fuel nexts fin + n) (synthetic_file nexts fin) secondary fs
         = iter_raw fs secondary
             (map scanned (filter (\<lambda>sg. any_match fs (seg_time sg # seg_data sg)) nexts)
              @ final_buffers fin) Exhausted
       \<and> dom (datasets_by_tag_number (fst (snd (decode_buffer fs secondary rb))))
         \<subseteq> tag_number ` set (filter (\<lambda>e. \<not> skipped fs secondary e) (fst rb))
       \<and> (fst (decode_buffer fs secondary rb) = Yield \<longrightarrow>
            (\<forall>e. ordinary secondary e \<longrightarrow>
               map_option Inr (datasets_by_tag_number
                                 (fst (snd (decode_buffer fs secondary rb))) (tag_number e))
               = last_option (accepted_reads fs (snd rb) (tag_number e) (fst rb))))"
proof (intro conjI)
  show r: "raw_buffers (scan_fuel nexts fin + n) (synthetic_file nexts fin) fs
         = ([], map scanned (filter (\<lambda>sg. any_match fs (seg_time sg # seg_data sg)) nexts)
                @ final_buffers fin, Exhausted)"
    using raw_buffers_synthetic [OF assms(2,3,4), of n] assms(1)
    by (simp add: kept_buffers_filter [OF assms(1,5)])
  show "iter_buffers (scan_fuel nexts fin + n) (synthetic_file nexts fin) secondary fs
         = iter_raw fs secondary
             (map scanned (filter (\<lambda>sg. any_match fs (seg_time sg # seg_data sg)) nexts)
              @ final_buffers fin) Exhausted"
    by (simp add: iter_buffers_valid [OF assms(2)] r)
  obtain act b' ws' where d: "decode_buffer fs secondary rb = (act, b', ws')"
    by (cases "decode_buffer fs secondary rb")
  then have d': "decode_entries fs secondary (snd rb) (fst rb) Buffer_init (fs \<noteq> []) []
      = (act, b', ws')"
    by (simp add: decode_buffer_def)
  show "dom (datasets_by_tag_number (fst (snd (decode_buffer fs secondary rb))))
         \<subseteq> tag_number ` set (filter (\<lambda>e. \<not> skipped fs secondary e) (fst rb))"
    using decode_entries_only_unskipped [OF assms(1) d']
    by (simp add: d Buffer_init_def)
  show "fst (decode_buffer fs secondary rb) = Yield \<longrightarrow>
            (\<forall>e. ordinary secondary e \<longrightarrow>
               map_option Inr (datasets_by_tag_number
                                 (fst (snd (decode_buffer fs secondary rb))) (tag_number e))
               = last_option (accepted_reads fs (snd rb) (tag_number e) (fst rb)))"
  proof (intro impI allI)
    fix e
    assume y: "fst (decode_buffer fs secondary rb) = Yield" and o: "ordinary secondary e"
    from y d have a: "act = Yield" by simp
    from decode_entries_values [OF assms(1) o d' [unfolded a]]
    show "map_option Inr (datasets_by_tag_number
                            (fst (snd (decode_buffer fs secondary rb))) (tag_number e))
        = last_option (accepted_reads fs (snd rb) (tag_number e) (fst rb))"
      by (simp add: d last_option_def Buffer_init_def)
  qed
qed

lemma filter_entries:
  "seg_time filter_seg = time_entry \<lparr> data_offset := 64 \<rparr>"
  "seg_data filter_seg = [data_entry 7 100, data_entry 8 102]"
  "seg_end filter_seg = next_entry 104"
  "seg_directory filter_seg
     = [time_entry \<lparr> data_offset := 64 \<rparr>, data_entry 7 100, data_entry 8 102, next_entry 104]"
  "length (seg_bytes filter_seg) = 104"
  "drop 64 (seg_bytes filter_seg) = filter_payload"
  "length filter_payload = 40"
  by (simp_all add: filter_seg_def seg_directory_def seg_bytes_def length_pack_entry
      filter_payload_def example_time_bytes_def)

lemma filter_seg_ok: "next_segment filter_seg"
  unfolding next_segment_def filter_entries
  by (simp add: entry_ok_def plain_entries_def time_signature_def time_entry_def
      data_entry_def next_entry_def TIME_TAG_def NEXT_TAG_def LAST_TAG_def)

lemma filter_last_ok: "last_segment filter_last"
  by (simp add: last_segment_def filter_last_def entry_ok_def plain_entries_def
      time_signature_def time_entry_def last_entry_def TIME_TAG_def LAST_TAG_def)

lemma tag7_matches:
  "matches tag7_filter e = (tag_number e = 7)"
  by (simp add: tag7_filter_def getattr_entry_def)

lemma tag7_valid: "list_all hasattr_entry (map fst tag7_filter)" "tag7_filter \<noteq> []"
  by (simp_all add: tag7_filter_def hasattr_entry_def)

lemma filter_data:
  "unpack_from (replicate 9 Fmt_H) (seg_bytes filter_seg) 64
     = Inr [PInt 2019, PInt 3, PInt 1, PInt 10, PInt 0, PInt 0, PInt 5000, PInt 10000, PInt 0]"
  "read_dataset (data_entry 7 100) (seg_bytes filter_seg) = ([], Inr [PInt 258])"
  "read_dataset (data_entry 8 102) (seg_bytes filter_seg) = ([], Inr [PInt 772])"
proof -
  have p: "filter_payload = example_time_bytes @ replicate 18 0 @ [2, 1, 4, 3]"
    by (simp add: filter_payload_def)
  show "unpack_from (replicate 9 Fmt_H) (seg_bytes filter_seg) 64
     = Inr [PInt 2019, PInt 3, PInt 1, PInt 10, PInt 0, PInt 0, PInt 5000, PInt 10000, PInt 0]"
    by (simp add: unpack_from_def calcsize_replicate filter_entries)
      (simp add: filter_payload_def example_time_bytes_def replicate_numeral)
  have d100: "drop 100 (seg_bytes filter_seg) = [2, 1, 4, 3]"
    using arg_cong [OF filter_entries(6), of "drop 36"]
    by (simp add: filter_payload_def example_time_bytes_def)
  have d102: "drop 102 (seg_bytes filter_seg) = [4, 3]"
    using arg_cong [OF d100, of "drop 2"] by simp
  show "read_dataset (data_entry 7 100) (seg_bytes filter_seg) = ([], Inr [PInt 258])"
    by (simp add: read_dataset_def sample_string_def data_entry_def read_dataset_raw_def
        unpack_from_def calcsize_def filter_entries d100 to_signed_def)
  show "read_dataset (data_entry 8 102) (seg_bytes filter_seg) = ([], Inr [PInt 772])"
    by (simp add: read_dataset_def sample_string_def data_entry_def read_dataset_raw_def
        unpack_from_def calcsize_def filter_entries d102 to_signed_def)
qed

lemma entry_tags:
  "tag_number (time_entry \<lparr> data_offset := 64 \<rparr>) = 0"
  "data_offset (time_entry \<lparr> data_offset := 64 \<rparr>) = 64"
  "tag_number time_entry = 0" "data_offset time_entry = 32"
  "tag_number (data_entry t off) = t" "tag_number (next_entry off) = 999"
  "tag_number last_entry = 65535"
  by (simp_all add: time_entry_def data_entry_def next_entry_def last_entry_def)

lemmas tag_values = TIME_TAG_def NEXT_TAG_def RESERVED_TAG_LOW_END_def
  RESERVED_TAG_HIGH_END_def FILENAME_TAG_def FILEDATA_TAG_def COMMAND_TAG_def
  ERROR_TAG_def SAME_TAG_def LAST_TAG_def

lemma decode_filter_seg:
  "decode_buffer tag7_filter [] (scanned filter_seg)
     = (Yield,
        add_dataset
          (add_dataset
             (add_dataset Buffer_init (time_entry \<lparr> data_offset := 64 \<rparr>) filter_time_data)
             (time_entry \<lparr> data_offset := 64 \<rparr>) filter_time_data)
          (data_entry 7 100) [PInt 258],
        [])"
  by (simp add: decode_buffer_def scanned_def filter_entries decode_entries.simps
      entry_tags tag_values filter_data tag7_valid tag7_matches filter_time_data_def
      read_matching_no_match)
    (simp add: tag7_filter_def getattr_entry_def entry_tags filter_data)

lemma decode_filter_last:
  "decode_buffer tag7_filter [] (scanned filter_last)
     = (Return,
        add_dataset (add_dataset Buffer_init time_entry filter_time_data)
          time_entry filter_time_data,
        [])"
proof -
  have "drop 32 (seg_bytes filter_last) = example_time_bytes @ replicate 18 0"
    "length (seg_bytes filter_last) = 68"
    by (simp_all add: filter_last_def seg_directory_def seg_bytes_def length_pack_entry
        example_time_bytes_def)
  then have u: "unpack_from (replicate 9 Fmt_H) (seg_bytes filter_last) 32
      = Inr filter_time_data"
    by (simp add: unpack_from_def calcsize_replicate)
      (simp add: example_time_bytes_def replicate_numeral filter_time_data_def)
  show ?thesis
    by (simp add: decode_buffer_def scanned_def filter_last_def seg_directory_def
        decode_entries.simps entry_tags tag_values u [unfolded filter_last_def] tag7_valid)
qed

lemma filter_file_scan:
  "raw_buffers 8 filter_file tag7_filter
     = ([], [scanned filter_seg, scanned filter_last], Exhausted)"
proof -
  have "scan_fuel [filter_seg] filter_last = 8"
    by (simp add: scan_fuel_def filter_entries filter_last_def)
  moreover have "kept_buffers tag7_filter True [filter_seg] = [scanned filter_seg]"
    by (simp add: filter_entries tag7_matches tag7_valid entry_tags)
  moreover have "final_buffers filter_last = [scanned filter_last]"
    by (simp add: final_buffers_def filter_last_def example_time_bytes_def)
  ultimately show ?thesis
    using raw_buffers_synthetic [OF tag7_valid(1) _ filter_last_ok, of "[filter_seg]" 0]
    by (simp add: filter_seg_ok tag7_valid filter_file_def)
qed

text \<open>
  The theorem on \<open>filter_file\<close> with the filter \<open>{'tag_number': [7]}\<close>: the first
  buffer is kept and yielded, the entry with tag number 7 is decoded to its value 258,
  the entry with tag number 8 is not decoded.
\<close>

theorem filter_selects_buffers_and_records_witness:
  "raw_buffers 8 filter_file tag7_filter
     = ([], [scanned filter_seg, scanned filter_last], Exhausted)
   \<and> fst (decode_buffer tag7_filter [] (scanned filter_seg)) = Yield
   \<and> datasets_by_tag_number
       (fst (snd (decode_buffer tag7_filter [] (scanned filter_seg)))) 7 = Some [PInt 258]
   \<and> datasets_by_tag_number
       (fst (snd (decode_buffer tag7_filter [] (scanned filter_seg)))) 8 = None"
proof -
  have nx: "list_all (\<lambda>sg. \<not> matches tag7_filter (seg_end sg)) [filter_seg]"
    by (simp add: tag7_matches filter_entries entry_tags)
  have segs: "list_all next_segment [filter_seg]" by (simp add: filter_seg_ok)
  note t = filter_selects_buffers_and_records [OF tag7_valid(2,1) segs filter_last_ok nx,
      of 0 "[]" "scanned filter_seg"]
  have fuel: "scan_fuel [filter_seg] filter_last + 0 = 8"
    by (simp add: scan_fuel_def filter_entries filter_last_def)
  have y: "fst (decode_buffer tag7_filter [] (scanned filter_seg)) = Yield"
    by (simp add: decode_filter_seg)
  have o: "ordinary [] (data_entry 7 100)" "ordinary [] (data_entry 8 102)"
    by (simp_all add: entry_tags tag_values ordinary_def)
  have r: "accepted_reads tag7_filter (snd (scanned filter_seg)) 7 (fst (scanned filter_seg))
        = [Inr [PInt 258]]"
    "accepted_reads tag7_filter (snd (scanned filter_seg)) 8 (fst (scanned filter_seg)) = []"
    by (simp_all add: accepted_reads_def scanned_def filter_entries entry_tags tag_values
        tag7_matches filter_data)
  from t y o(1) have "map_option Inr (datasets_by_tag_number
        (fst (snd (decode_buffer tag7_filter [] (scanned filter_seg))))
        (tag_number (data_entry 7 100)))
      = last_option (accepted_reads tag7_filter (snd (scanned filter_seg))
          (tag_number (data_entry 7 100)) (fst (scanned filter_seg)))"
    by blast
  then have v7: "datasets_by_tag_number
       (fst (snd (decode_buffer tag7_filter [] (scanned filter_seg)))) 7 = Some [PInt 258]"
    by (simp add: entry_tags r last_option_def)
  from t y o(2) have "map_option Inr (datasets_by_tag_number
        (fst (snd (decode_buffer tag7_filter [] (scanned filter_seg))))
        (tag_number (data_entry 8 102)))
      = last_option (accepted_reads tag7_filter (snd (scanned filter_seg))
          (tag_number (data_entry 8 102)) (fst (scanned filter_seg)))"
    by blast
  then have v8: "datasets_by_tag_number
       (fst (snd (decode_buffer tag7_filter [] (scanned filter_seg)))) 8 = None"
    by (simp add: entry_tags r last_option_def)
  from t have "raw_buffers 8 filter_file tag7_filter
     = ([], [scanned filter_seg, scanned filter_last], Exhausted)"
    unfolding fuel
    by (simp add: filter_file_def filter_entries tag7_matches entry_tags final_buffers_def
        filter_last_def example_time_bytes_def)
  with y v7 v8 show ?thesis by simp
qed

text \<open>
  Claim C5 as stated fails on \<open>filter_file\<close> with the filter
  \<open>{'tag_number': [7]}\<close>. \<open>iter_buffers\<close> yields one buffer; it holds the dataset
  of the entry with tag number 7, and looking up tag number 8 raises \<open>KeyError\<close>,
  although the entry with tag number 8 is a data entry of the same kept buffer and
  its dataset can be read.
\<close>

theorem kept_buffer_not_fully_decoded_counterexample:
  "map (\<lambda>b. (get_dataset_by_tag_number b 7, get_dataset_by_tag_number b 8))
     (fst (iter_buffers 8 filter_file [] tag7_filter))
     = [(Inr [PInt 258], Inl (KeyError 8))]
   \<and> data_entry 8 102 \<in> set (fst (scanned filter_seg))
   \<and> snd (read_dataset (data_entry 8 102) (snd (scanned filter_seg))) = Inr [PInt 772]"
proof -
  have "iter_buffers 8 filter_file [] tag7_filter
      = iter_raw tag7_filter [] [scanned filter_seg, scanned filter_last] Exhausted"
    by (simp add: iter_buffers_valid [OF tag7_valid(1)] filter_file_scan)
  then have "fst (iter_buffers 8 filter_file [] tag7_filter)
      = [add_dataset
          (add_dataset
             (add_dataset Buffer_init (time_entry \<lparr> data_offset := 64 \<rparr>) filter_time_data)
             (time_entry \<lparr> data_offset := 64 \<rparr>) filter_time_data)
          (data_entry 7 100) [PInt 258]]"
    by (simp add: decode_filter_seg decode_filter_last)
  then show ?thesis
    by (simp add: get_dataset_by_tag_number_def lookup_or_KeyError_def by_tag_add_dataset
        entry_tags Buffer_init_def scanned_def filter_entries filter_data)
qed

subsection \<open>A file whose last buffer is cut short\<close>

lemma dup_entries:
  "seg_time dup_seg = time_entry \<lparr> data_offset := 48 \<rparr>"
  "seg_data dup_seg = [filedata_entry]"
  "seg_end dup_seg = next_entry 88"
  "seg_directory dup_seg = [time_entry \<lparr> data_offset := 48 \<rparr>, filedata_entry, next_entry 88]"
  "length (seg_bytes dup_seg) = 88"
  "drop 48 (seg_bytes dup_seg) = example_time_bytes @ replicate 18 0 @ [97, 98, 99, 10]"
  "seg_time dup_last = time_entry" "seg_data dup_last = []" "seg_end dup_last = last_entry"
  "seg_directory dup_last = [time_entry, last_entry]"
  "seg_payload dup_last = [0, 0, 0, 0]"
  "length (seg_bytes dup_last) = 36"
  by (simp_all add: dup_seg_def dup_last_def seg_directory_def seg_bytes_def length_pack_entry
      example_time_bytes_def)

lemma dup_seg_ok: "next_segment dup_seg"
  unfolding next_segment_def dup_entries
  by (simp add: entry_ok_def plain_entries_def time_signature_def time_entry_def
      filedata_entry_def next_entry_def TIME_TAG_def NEXT_TAG_def LAST_TAG_def)

lemma dup_last_ok: "last_segment dup_last"
  by (simp add: last_segment_def dup_last_def entry_ok_def plain_entries_def
      time_signature_def time_entry_def last_entry_def TIME_TAG_def LAST_TAG_def)

lemma filedata_matches: "matches filedata_filter e = (tag_number e = 65531)"
  by (simp add: filedata_filter_def getattr_entry_def FILEDATA_TAG_def)

lemma filedata_valid: "list_all hasattr_entry (map fst filedata_filter)" "filedata_filter \<noteq> []"
  by (simp_all add: filedata_filter_def hasattr_entry_def)

lemma dup_tags:
  "tag_number filedata_entry = 65531" "tag_number (time_entry \<lparr> data_offset := 48 \<rparr>) = 0"
  "data_offset (time_entry \<lparr> data_offset := 48 \<rparr>) = 48"
  by (simp_all add: filedata_entry_def time_entry_def)

lemma dup_scan:
  "raw_buffers 7 dup_file filedata_filter
     = ([], [scanned dup_seg, scanned dup_last, scanned dup_last], Exhausted)"
  "raw_buffers 7 dup_file []
     = ([], [scanned dup_seg, scanned dup_last, scanned dup_last], Exhausted)"
proof -
  have fuel: "scan_fuel [dup_seg] dup_last = 7"
    by (simp add: scan_fuel_def dup_entries dup_last_def)
  have k: "kept_buffers filedata_filter True [dup_seg] = [scanned dup_seg]"
    by (simp add: dup_entries filedata_matches filedata_valid dup_tags)
  have f: "final_buffers dup_last = [scanned dup_last, scanned dup_last]"
    by (simp add: final_buffers_def dup_entries)
  show "raw_buffers 7 dup_file filedata_filter
     = ([], [scanned dup_seg, scanned dup_last, scanned dup_last], Exhausted)"
    using raw_buffers_synthetic [OF filedata_valid(1) _ dup_last_ok, of "[dup_seg]" 0]
    by (simp add: dup_seg_ok fuel k f dup_file_def filedata_valid del: kept_buffers.simps)
  show "raw_buffers 7 dup_file []
     = ([], [scanned dup_seg, scanned dup_last, scanned dup_last], Exhausted)"
    using raw_buffers_synthetic_no_filter [OF _ dup_last_ok, of "[dup_seg]" 0]
    by (simp add: dup_seg_ok fuel f dup_file_def)
qed

lemma dup_first_entry: "new_from_raw_data dup_file 0 = Inr (time_entry \<lparr> data_offset := 48 \<rparr>)"
proof -
  have ok: "entry_ok (time_entry \<lparr> data_offset := 48 \<rparr>)"
    by (simp add: entry_ok_def time_entry_def)
  define post where "post = pack_entry filedata_entry @ pack_entry (next_entry 88)
      @ seg_payload dup_seg @ seg_bytes dup_last"
  have "dup_file = [] @ pack_entry (time_entry \<lparr> data_offset := 48 \<rparr>) @ post"
    by (simp add: dup_file_def synthetic_file_def seg_bytes_def dup_entries post_def)
  with new_from_raw_data_pack [OF ok, of "[]" post] show ?thesis by simp
qed

lemma dup_filetype: "filetype_check dup_file = Inr ()"
  by (simp add: filetype_check_def dup_first_entry time_entry_def TIME_TAG_def)

lemma dup_time: "datetime_from_raw_seatime (seg_bytes dup_seg) 48 = Inr example_datetime"
proof -
  have t: "SEATime_unpack (example_time_bytes @ replicate 18 0 @ [97, 98, 99, 10]) =
      \<lparr> year = 2019, month = 3, day = 1, hour = 10, minute = 0, second = 0,
        fraction_of_second = 5000, max_sys_freq = 10000, buffer_life_span = 0 \<rparr>"
    by (simp add: SEATime_unpack_def example_time_bytes_def u16_at_def)
  have m: "py_int (py_truediv (1000000 * 5000) 10000) = (1000000 * 5000) div 10000"
    by (rule microsecond_floor) simp_all
  show ?thesis
    using m
    by (simp add: datetime_from_raw_seatime_def dup_entries t datetime_from_seatime_def
        datetime_new_def datetime_valid_def days_in_month_def is_leap_def
        example_datetime_def)
qed

lemma dup_init:
  "init_buffers [scanned dup_seg, scanned dup_last, scanned dup_last] Exhausted None
     = Initialized (Some example_datetime)"
  by (simp add: scanned_def dup_entries entry_tags dup_tags tag_values dup_time)

lemma dup_bytes:
  "dup_file = [0, 0, 48, 0, 36, 0, 2, 0, 18, 0, 0, 0, 0, 0, 85, 170]
     @ [251, 255, 84, 0, 4, 0, 1, 0, 4, 0, 0, 0, 0, 0, 0, 0]
     @ next_entry_bytes 88
     @ example_time_bytes @ replicate 18 0 @ [97, 98, 99, 10]
     @ time_entry_bytes @ last_entry_bytes @ [0, 0, 0, 0]"
proof -
  have p: "seg_payload dup_seg = example_time_bytes @ replicate 18 0 @ [97, 98, 99, 10]"
    by (simp add: dup_seg_def)
  have "dup_file = pack_entry (time_entry \<lparr> data_offset := 48 \<rparr>) @ pack_entry filedata_entry
      @ pack_entry (next_entry 88) @ seg_payload dup_seg
      @ pack_entry time_entry @ pack_entry last_entry @ [0, 0, 0, 0]"
    by (simp add: dup_file_def synthetic_file_def seg_bytes_def dup_entries)
  then show ?thesis
    unfolding p
    by (simp add: pack_entry_def pack_u16_def time_entry_def filedata_entry_def
        next_entry_def last_entry_def file_bytes)
qed

text \<open>
  Claim C2 fails on the code. \<open>dup_file\<close> has one segment that ends with NEXT and
  a last segment that ends with LAST, followed by four bytes. The constructor of
  \<open>SEAFile\<close> accepts the file: the check of the file type passes and
  \<open>_init_from_file\<close> ends without exception, with the time of the first buffer. Its
  scan, with the filter on FILEDATA entries, receives three buffers from the scanner:
  the first buffer, kept for its FILEDATA entry, and the last buffer twice, once at
  the LAST entry and once more by the test for the end of the file, since no more
  than 16 bytes follow the LAST entry. The scan without filter yields the same three
  buffers. The last conjunct gives the bytes of the file.
\<close>

theorem final_buffer_emitted_twice:
  "SEAFile_init 7 dup_file = Initialized (Some example_datetime)
   \<and> raw_buffers 7 dup_file filedata_filter
     = ([], [scanned dup_seg, scanned dup_last, scanned dup_last], Exhausted)
   \<and> raw_buffers 7 dup_file []
     = ([], [scanned dup_seg, scanned dup_last, scanned dup_last], Exhausted)
   \<and> scanned dup_last = ([time_entry, time_entry, last_entry], drop 88 dup_file)
   \<and> length dup_file = 124
   \<and> dup_file = [0, 0, 48, 0, 36, 0, 2, 0, 18, 0, 0, 0, 0, 0, 85, 170]
       @ [251, 255, 84, 0, 4, 0, 1, 0, 4, 0, 0, 0, 0, 0, 0, 0]
       @ next_entry_bytes 88
       @ example_time_bytes @ replicate 18 0 @ [97, 98, 99, 10]
       @ time_entry_bytes @ last_entry_bytes @ [0, 0, 0, 0]"
proof (intro conjI)
  show "raw_buffers 7 dup_file filedata_filter
     = ([], [scanned dup_seg, scanned dup_last, scanned dup_last], Exhausted)"
    by (rule dup_scan(1))
  show "raw_buffers 7 dup_file []
     = ([], [scanned dup_seg, scanned dup_last, scanned dup_last], Exhausted)"
    by (rule dup_scan(2))
  have "init_from_file 7 dup_file = Initialized (Some example_datetime)"
    by (simp add: init_from_file_def dup_scan(1) [unfolded filedata_filter_def] dup_init
        del: init_buffers.simps)
  then show "SEAFile_init 7 dup_file = Initialized (Some example_datetime)"
    by (simp add: SEAFile_init_def dup_filetype)
  show "scanned dup_last = ([time_entry, time_entry, last_entry], drop 88 dup_file)"
    by (simp add: scanned_def dup_entries dup_file_def synthetic_file_def)
  show "length dup_file = 124"
    by (simp add: dup_file_def synthetic_file_def dup_entries)
  show "dup_file = [0, 0, 48, 0, 36, 0, 2, 0, 18, 0, 0, 0, 0, 0, 85, 170]
       @ [251, 255, 84, 0, 4, 0, 1, 0, 4, 0, 0, 0, 0, 0, 0, 0]
       @ next_entry_bytes 88
       @ example_time_bytes @ replicate 18 0 @ [97, 98, 99, 10]
       @ time_entry_bytes @ last_entry_bytes @ [0, 0, 0, 0]"
    by (rule dup_bytes)
qed

end
